theory Spec2Isabelle
  imports Main "HOL-Library.AList" "HOL-Library.Multiset"
begin

section \<open>Text and regular expressions\<close>

text \<open>
  The cleaning code of \<^verbatim>\<open>customerorderdetail.py\<close> works on text cells through three
  regular expressions, \<^verbatim>\<open>\d{2}-\d{2}-\d{2}\<close>, \<^verbatim>\<open>(\d{5,})\s+(\d{1,2}/\d{1,2}/\d{4})\<close> and
  \<^verbatim>\<open>Order No.\<close>, handed to \<^verbatim>\<open>str.contains\<close>, \<^verbatim>\<open>str.extract\<close> and \<^verbatim>\<open>str.replace\<close>.
  All three are sequences of character classes with a greedy repeat count, some of them
  inside a capture group. That fragment is modelled here with the matching order of Python's
  backtracking matcher: each repeat first takes as many characters as it can and gives them
  back one at a time while the rest of the pattern fails.

  A Python string is a \<^typ>\<open>string\<close>, one \<^typ>\<open>char\<close> per code point, so the model covers the
  code points below 256. There \<^verbatim>\<open>\d\<close> is the ten ASCII digits and \<^verbatim>\<open>\s\<close> (as well as what
  \<^verbatim>\<open>str.strip\<close> removes) is the set \<open>is_space\<close> below.
\<close>

datatype item = Rep "char \<Rightarrow> bool" nat "nat option"
  \<comment> \<open>a character class, the least and the greatest (if any) number of repeats\<close>

datatype piece = Plain "item list" | Group "item list"
  \<comment> \<open>a stretch of the pattern outside or inside a capture group\<close>

definition is_digit :: "char \<Rightarrow> bool" where
  "is_digit c = (c \<in> set ''0123456789'')"

definition is_space :: "char \<Rightarrow> bool" where
  "is_space c = (c \<in> set [CHR 0x09, CHR 0x0A, CHR 0x0B, CHR 0x0C, CHR 0x0D,
                           CHR 0x1C, CHR 0x1D, CHR 0x1E, CHR 0x1F, CHR '' '',
                           CHR 0x85, CHR 0xA0])"

definition lit :: "char \<Rightarrow> item" where
  "lit c = Rep (\<lambda>x. x = c) 1 (Some 1)"

definition any_char :: item where
  \<comment> \<open>the dot: any character but the newline\<close>
  "any_char = Rep (\<lambda>x. x \<noteq> CHR 0x0A) 1 (Some 1)"

definition date_pattern :: "piece list" where
  \<comment> \<open>\<^verbatim>\<open>date_pattern = r'\d{2}-\d{2}-\d{2}'\<close>\<close>
  "date_pattern = [Plain [Rep is_digit 2 (Some 2), lit CHR ''-'', Rep is_digit 2 (Some 2),
                          lit CHR ''-'', Rep is_digit 2 (Some 2)]]"

definition order_pattern :: "piece list" where
  \<comment> \<open>\<^verbatim>\<open>order_pattern = r"(\d{5,})\s+(\d{1,2}/\d{1,2}/\d{4})"\<close>\<close>
  "order_pattern = [Group [Rep is_digit 5 None], Plain [Rep is_space 1 None],
                    Group [Rep is_digit 1 (Some 2), lit CHR ''/'', Rep is_digit 1 (Some 2),
                           lit CHR ''/'', Rep is_digit 4 (Some 4)]]"

definition marker_pattern :: "piece list" where
  \<comment> \<open>\<^verbatim>\<open>'Order No.'\<close>, read as a regular expression by \<^verbatim>\<open>str.contains\<close>\<close>
  "marker_pattern = [Plain (map lit ''Order No'' @ [any_char])]"

fun items_of :: "piece list \<Rightarrow> item list" where
  "items_of [] = []"
| "items_of (Plain its # ps) = its @ items_of ps"
| "items_of (Group its # ps) = its @ items_of ps"

primrec first_down :: "(nat \<Rightarrow> 'a option) \<Rightarrow> nat \<Rightarrow> nat \<Rightarrow> 'a option" where
  \<comment> \<open>the first success of \<open>f\<close> at the counts \<open>k, k - 1, ..., l\<close>\<close>
  "first_down f l 0 = (if l = 0 then f 0 else None)"
| "first_down f l (Suc k) =
     (if Suc k < l then None
      else case f (Suc k) of Some r \<Rightarrow> Some r | None \<Rightarrow> first_down f l k)"

fun match_here :: "item list \<Rightarrow> string \<Rightarrow> (string list \<times> string) option" where
  \<comment> \<open>a match that starts at the head of the text: what each item took, and the text left\<close>
  "match_here [] s = Some ([], s)"
| "match_here (Rep p l h # its) s =
     (let avail = length (takeWhile p s);
          kmax = (case h of None \<Rightarrow> avail | Some m \<Rightarrow> min m avail)
      in first_down
           (\<lambda>k. case match_here its (drop k s) of
                  None \<Rightarrow> None
                | Some (gs, rest) \<Rightarrow> Some (take k s # gs, rest))
           l kmax)"

fun search :: "item list \<Rightarrow> string \<Rightarrow> (string \<times> string list \<times> string) option" where
  \<comment> \<open>\<^verbatim>\<open>re.search\<close>: the match at the leftmost start; the text before it, the match, the text after\<close>
  "search its [] =
     (case match_here its [] of None \<Rightarrow> None | Some (gs, rest) \<Rightarrow> Some ([], gs, rest))"
| "search its (c # cs) =
     (case match_here its (c # cs) of
        Some (gs, rest) \<Rightarrow> Some ([], gs, rest)
      | None \<Rightarrow> (case search its cs of
                   None \<Rightarrow> None
                 | Some (pre, gs, rest) \<Rightarrow> Some (c # pre, gs, rest)))"

fun captures :: "piece list \<Rightarrow> string list \<Rightarrow> string list" where
  \<comment> \<open>the text of each capture group, from what the items took\<close>
  "captures [] gs = []"
| "captures (Plain its # ps) gs = captures ps (drop (length its) gs)"
| "captures (Group its # ps) gs =
     concat (take (length its) gs) # captures ps (drop (length its) gs)"

fun sub_from :: "item list \<Rightarrow> nat \<Rightarrow> string \<Rightarrow> string" where
  \<comment> \<open>\<^verbatim>\<open>re.sub(pat, '', s)\<close> as a scan from the left; the counter is the number of characters
      of the current match still to be dropped\<close>
  "sub_from its k [] = []"
| "sub_from its (Suc k) (c # cs) = sub_from its k cs"
| "sub_from its 0 (c # cs) =
     (case match_here its (c # cs) of
        None \<Rightarrow> c # sub_from its 0 cs
      | Some (gs, rest) \<Rightarrow>
          (case length (concat gs) of
             0 \<Rightarrow> c # sub_from its 0 cs
           | Suc n \<Rightarrow> sub_from its n cs))"

definition re_sub_empty :: "piece list \<Rightarrow> string \<Rightarrow> string" where
  "re_sub_empty pat s = sub_from (items_of pat) 0 s"

definition strip :: "string \<Rightarrow> string" where
  "strip s = rev (dropWhile is_space (rev (dropWhile is_space s)))"

definition endswith :: "string \<Rightarrow> string \<Rightarrow> bool" where
  "endswith s suf = (length suf \<le> length s \<and> drop (length s - length suf) s = suf)"


section \<open>Cells, columns and frames\<close>

text \<open>
  A cell of the table read by \<^verbatim>\<open>pd.read_excel\<close> is null, a text, or another scalar (a number);
  \<^verbatim>\<open>pd.to_datetime\<close> adds timestamps. The one null value \<open>NaN\<close> stands for \<^verbatim>\<open>NaN\<close>, \<^verbatim>\<open>None\<close>
  and \<^verbatim>\<open>NaT\<close>, which pandas treats alike in \<^verbatim>\<open>ffill\<close>, \<^verbatim>\<open>dropna\<close> and the \<^verbatim>\<open>na=False\<close> of
  the string tests. The empty text \<open>Str []\<close> is not null.

  A frame is column oriented as in pandas: the row labels and the columns in their order,
  each column a list of cells. The columns read through \<^verbatim>\<open>.str\<close> are taken to be of
  object dtype (pandas refuses the accessor on a numeric column before any row is looked
  at); a column that is absent raises \<^verbatim>\<open>KeyError\<close>.
\<close>

datatype 'd cell = NaN | Str string | Num int | Date 'd

record 'd frame =
  index :: "nat list"
  columns :: "(string \<times> 'd cell list) list"

datatype error = KeyError string

definition getitem :: "'d frame \<Rightarrow> string \<Rightarrow> error + 'd cell list" where
  \<comment> \<open>\<^verbatim>\<open>df[name]\<close>\<close>
  "getitem df name =
     (case map_of (columns df) name of None \<Rightarrow> Inl (KeyError name) | Some col \<Rightarrow> Inr col)"

definition setitem :: "'d frame \<Rightarrow> string \<Rightarrow> 'd cell list \<Rightarrow> 'd frame" where
  \<comment> \<open>\<^verbatim>\<open>df[name] = col\<close>: replaces the column in place, or appends a new one\<close>
  "setitem df name col = df\<lparr>columns := AList.update name col (columns df)\<rparr>"

definition setitems :: "'d frame \<Rightarrow> string list \<Rightarrow> 'd cell list list \<Rightarrow> 'd frame" where
  \<comment> \<open>\<^verbatim>\<open>df[[name1, name2]] = frame\<close>, column by column\<close>
  "setitems df names cols = fold (\<lambda>(name, col) d. setitem d name col) (zip names cols) df"

definition series_where :: "'d cell list \<Rightarrow> bool list \<Rightarrow> 'd cell list" where
  \<comment> \<open>\<^verbatim>\<open>col.where(cond)\<close>: the cell where the condition holds, null elsewhere\<close>
  "series_where col cond = map (\<lambda>(c, b). if b then c else NaN) (zip col cond)"

definition select :: "bool list \<Rightarrow> 'a list \<Rightarrow> 'a list" where
  \<comment> \<open>boolean-mask indexing\<close>
  "select keep xs = map snd (filter fst (zip keep xs))"

definition select_rows :: "'d frame \<Rightarrow> bool list \<Rightarrow> 'd frame" where
  \<comment> \<open>\<^verbatim>\<open>df[mask]\<close>: the rows where the mask holds, with their labels\<close>
  "select_rows df keep =
     \<lparr>index = select keep (index df),
      columns = map (\<lambda>(name, col). (name, select keep col)) (columns df)\<rparr>"

fun ffill_from :: "'d cell \<Rightarrow> 'd cell list \<Rightarrow> 'd cell list" where
  \<comment> \<open>one pass that carries the last value seen\<close>
  "ffill_from seen [] = []"
| "ffill_from seen (c # cs) =
     (if c = NaN then seen # ffill_from seen cs else c # ffill_from c cs)"

definition ffill :: "'d cell list \<Rightarrow> 'd cell list" where
  "ffill col = ffill_from NaN col"

fun str_contains1 :: "piece list \<Rightarrow> 'd cell \<Rightarrow> bool" where
  \<comment> \<open>\<^verbatim>\<open>str.contains(pat, na=False)\<close> on one cell: a cell that is no text gives null, so
      \<open>False\<close>\<close>
  "str_contains1 pat (Str s) = (search (items_of pat) s \<noteq> None)"
| "str_contains1 pat _ = False"

definition str_contains :: "piece list \<Rightarrow> 'd cell list \<Rightarrow> bool list" where
  "str_contains pat col = map (str_contains1 pat) col"

fun str_extract1 :: "piece list \<Rightarrow> nat \<Rightarrow> 'd cell \<Rightarrow> 'd cell" where
  \<comment> \<open>capture group \<open>j\<close> of the first match in one cell; null without a match\<close>
  "str_extract1 pat j (Str s) =
     (case search (items_of pat) s of
        None \<Rightarrow> NaN
      | Some (pre, gs, rest) \<Rightarrow> Str (captures pat gs ! j))"
| "str_extract1 pat j _ = NaN"

definition str_extract :: "piece list \<Rightarrow> 'd cell list \<Rightarrow> 'd cell list list" where
  \<comment> \<open>\<^verbatim>\<open>str.extract(pat)\<close>: one column per capture group\<close>
  "str_extract pat col =
     map (\<lambda>j. map (str_extract1 pat j) col) [0..<length (captures pat [])]"

fun str_replace1 :: "piece list \<Rightarrow> 'd cell \<Rightarrow> 'd cell" where
  \<comment> \<open>\<^verbatim>\<open>str.replace(pat, '', regex=True)\<close> on one cell: every match is removed\<close>
  "str_replace1 pat (Str s) = Str (re_sub_empty pat s)"
| "str_replace1 pat _ = NaN"

fun str_strip1 :: "'d cell \<Rightarrow> 'd cell" where
  "str_strip1 (Str s) = Str (strip s)"
| "str_strip1 _ = NaN"

fun str_endswith1 :: "string \<Rightarrow> 'd cell \<Rightarrow> bool" where
  \<comment> \<open>\<^verbatim>\<open>str.endswith(suf, na=False)\<close> on one cell\<close>
  "str_endswith1 suf (Str s) = endswith s suf"
| "str_endswith1 suf _ = False"

fun first_valid :: "'d cell list \<Rightarrow> 'd cell" where
  \<comment> \<open>the first cell that is not null (null if there is none)\<close>
  "first_valid [] = NaN"
| "first_valid (c # cs) = (if c = NaN then first_valid cs else c)"

definition to_datetime1 :: "('d cell \<Rightarrow> 'd cell \<Rightarrow> 'd option) \<Rightarrow> 'd cell \<Rightarrow> 'd cell \<Rightarrow> 'd cell" where
  "to_datetime1 parse h c =
     (if c = NaN then NaN else case parse h c of None \<Rightarrow> NaN | Some d \<Rightarrow> Date d)"

definition to_datetime :: "('d cell \<Rightarrow> 'd cell \<Rightarrow> 'd option) \<Rightarrow> 'd cell list \<Rightarrow> 'd cell list" where
  \<comment> \<open>\<^verbatim>\<open>pd.to_datetime(col, errors='coerce')\<close>. The parser of pandas is a parameter:
      \<open>parse h c\<close> is the timestamp of the scalar \<open>c\<close> in a column whose first valid scalar
      is \<open>h\<close> (pandas 2 guesses one format for the column from it; older versions ignore it),
      and \<open>None\<close> where pandas cannot parse, which \<^verbatim>\<open>errors='coerce'\<close> turns into null.\<close>
  "to_datetime parse col = map (to_datetime1 parse (first_valid col)) col"


section \<open>The cleaning pipeline\<close>

definition output_columns :: "string list" where
  "output_columns =
     [''CID'', ''Shipment_Date'', ''Customer_Name'', ''Type'', ''No.'',
      ''Order_No'', ''Order_Date'', ''Description'', ''Quantity'', ''OutstandingQuantity'',
      ''Quantity on Back Order'', ''Unit Price Excl. VAT'',
      ''Line Discount Amount'', ''Inv. Discount Amount Excl. VAT'', ''OutstandingOrders'']"

definition project :: "'d frame \<Rightarrow> string list \<Rightarrow> 'd frame" where
  \<comment> \<open>\<^verbatim>\<open>df[[col for col in names if col in df.columns]]\<close>\<close>
  "project df names =
     df\<lparr>columns :=
          List.map_filter (\<lambda>name. map_option (Pair name) (map_of (columns df) name)) names\<rparr>"

definition clean_data ::
  "('d cell \<Rightarrow> 'd cell \<Rightarrow> 'd option) \<Rightarrow> 'd frame \<Rightarrow> error + 'd frame" where
  "clean_data parse df =
     (case getitem df ''Type'' of Inl e \<Rightarrow> Inl e | Inr ty \<Rightarrow>
     (let customer = series_where ty (map (\<lambda>c. c \<noteq> Str ''Item'') ty);
          df1 = setitem df ''Customer_Name'' customer;
          df2 = setitem df1 ''Type'' (series_where ty (map (\<lambda>c. c = Str ''Item'') ty));
          df3 = setitem df2 ''Customer_Name'' (ffill customer)
      in
     (case getitem df3 ''Shipment Date'' of Inl e \<Rightarrow> Inl e | Inr sd \<Rightarrow>
     (let cid = series_where sd (map Not (str_contains date_pattern sd));
          df4 = setitem df3 ''CID'' cid;
          shipment = series_where sd (str_contains date_pattern sd);
          df5 = setitem df4 ''Shipment_Date'' shipment;
          df6 = setitem df5 ''CID'' (ffill cid);
          df7 = setitem df6 ''Shipment_Date'' (to_datetime parse (ffill shipment))
      in
     (case getitem df7 ''Description'' of Inl e \<Rightarrow> Inl e | Inr desc \<Rightarrow>
     (let extracted = str_extract order_pattern desc;
          df8 = setitems df7 [''Order_No'', ''Order_Date''] extracted;
          df9 = setitem df8 ''Order_No'' (ffill (extracted ! 0));
          df10 = setitem df9 ''Order_Date'' (to_datetime parse (ffill (extracted ! 1)));
          desc' = map str_strip1 (map (str_replace1 order_pattern) desc);
          df11 = setitem df10 ''Description'' desc'
      in
     (case getitem df11 ''No.'' of Inl e \<Rightarrow> Inl e | Inr no \<Rightarrow>
     (let keep = map Not (str_contains marker_pattern no);
          df12 = select_rows df11 keep;
          df13 = setitem df12 ''No.'' (ffill (select keep no));
          final_df = select_rows df13 (map (\<lambda>c. c \<noteq> NaN) (select keep desc'))
      in Inr (project final_df output_columns)))))))))"

text \<open>The split of \<^verbatim>\<open>main\<close> into the two result tables.\<close>

definition spp_deli_df :: "'d frame \<Rightarrow> error + 'd frame" where
  "spp_deli_df cleaned_df =
     (case getitem cleaned_df ''Customer_Name'' of Inl e \<Rightarrow> Inl e
      | Inr cn \<Rightarrow> Inr (select_rows cleaned_df (map (str_endswith1 ''Deli'') cn)))"

definition spp_foc_df :: "'d frame \<Rightarrow> error + 'd frame" where
  "spp_foc_df cleaned_df =
     (case getitem cleaned_df ''Customer_Name'' of Inl e \<Rightarrow> Inl e
      | Inr cn \<Rightarrow> Inr (select_rows cleaned_df (map Not (map (str_endswith1 ''Deli'') cn))))"

section \<open>Notions used in the statements\<close>

text \<open>
  The table that \<^verbatim>\<open>pd.read_excel\<close> hands to \<^verbatim>\<open>clean_data\<close> has the row labels
  \<open>0, 1, ..., n - 1\<close>, and every column has one cell per row.
\<close>

definition uniform :: "'d frame \<Rightarrow> bool" where
  "uniform df \<longleftrightarrow> (\<forall>col \<in> snd ` set (columns df). length col = length (index df))"

definition well_formed :: "'d frame \<Rightarrow> bool" where
  "well_formed df \<longleftrightarrow>
     index df = [0..<length (index df)] \<and>
     (\<forall>col \<in> snd ` set (columns df). length col = length (index df))"

text \<open>The rows of a frame: the label of each row with its cells, column by column.\<close>

definition rows :: "'d frame \<Rightarrow> (nat \<times> (string \<times> 'd cell) list) list" where
  "rows df =
     map (\<lambda>k. (index df ! k, map (\<lambda>(name, col). (name, col ! k)) (columns df)))
       [0..<length (index df)]"

text \<open>A cell holds a text (it is neither null, nor a number, nor a timestamp).\<close>

fun is_text :: "'d cell \<Rightarrow> bool" where
  "is_text (Str s) = True"
| "is_text _ = False"

text \<open>
  Row \<open>i\<close> of the input passes both row filters of \<^verbatim>\<open>clean_data\<close>: its \<^verbatim>\<open>No.\<close> cell does
  not match the marker pattern, and its \<^verbatim>\<open>Description\<close> is not null after the extraction.
\<close>

definition retained :: "'d cell list \<Rightarrow> 'd cell list \<Rightarrow> nat \<Rightarrow> bool" where
  "retained no desc i \<longleftrightarrow>
     \<not> str_contains1 marker_pattern (no ! i) \<and>
     str_strip1 (str_replace1 order_pattern (desc ! i)) \<noteq> NaN"

text \<open>
  The words of the specification for the forward fill: \<open>v\<close> is the value of the nearest row
  at or before row \<open>i\<close> whose cell in the column is not null, and null if there is no such
  row.
\<close>

definition nearest_preceding :: "'d cell list \<Rightarrow> nat \<Rightarrow> 'd cell \<Rightarrow> bool" where
  "nearest_preceding col i v \<longleftrightarrow>
     (\<exists>j\<le>i. col ! j \<noteq> NaN \<and> (\<forall>m. j < m \<and> m \<le> i \<longrightarrow> col ! m = NaN) \<and> v = col ! j) \<or>
     ((\<forall>j\<le>i. col ! j = NaN) \<and> v = NaN)"

text \<open>A stretch of text is what an item of a pattern may take.\<close>

fun fits :: "item \<Rightarrow> string \<Rightarrow> bool" where
  "fits (Rep p l h) g \<longleftrightarrow>
     list_all p g \<and> l \<le> length g \<and> (case h of None \<Rightarrow> True | Some m \<Rightarrow> length g \<le> m)"

text \<open>
  A cell is a text that contains, anywhere, two digits, a hyphen, two digits, a hyphen and
  two digits.
\<close>

definition has_date_group :: "'d cell \<Rightarrow> bool" where
  "has_date_group c \<longleftrightarrow>
     (\<exists>a b d1 d2 d3 d4 d5 d6.
        c = Str (a @ [d1, d2, CHR ''-'', d3, d4, CHR ''-'', d5, d6] @ b) \<and>
        list_all is_digit [d1, d2, d3, d4, d5, d6])"


section \<open>Example tables\<close>

text \<open>
  A parser for the examples: every text is a date but \<^verbatim>\<open>bad-00-00-00\<close> and \<^verbatim>\<open>99/99/9999\<close>;
  the timestamp is the text itself.
\<close>

definition parse_text :: "string cell \<Rightarrow> string cell \<Rightarrow> string option" where
  "parse_text h c =
     (case c of
        Str s \<Rightarrow> (if s = ''bad-00-00-00'' \<or> s = ''99/99/9999'' then None else Some s)
      | _ \<Rightarrow> None)"

text \<open>
  Two customers with one order each. Rows 0 and 3 are the customer headers, rows 1 and 4 the
  order headers (row 1 with the marker in \<^verbatim>\<open>No.\<close>, row 4 with an item text after the header),
  rows 2 and 5 the items. The cleaned table has the rows 2, 4 and 5.
\<close>

definition example_orders :: "string frame" where
  "example_orders =
     \<lparr>index = [0, 1, 2, 3, 4, 5],
      columns =
        [(''Shipment Date'',
          [Str ''ID123'', Str ''01-02-23'', NaN, Str ''ID9'', Str ''03-04-23'', NaN]),
         (''Type'',
          [Str ''Acme Deli'', NaN, Str ''Item'', Str ''Global Deli Express'', NaN, Str ''Item'']),
         (''No.'', [NaN, Str ''Order No.'', Str ''1001'', NaN, NaN, Str ''1002'']),
         (''Description'',
          [NaN, Str ''55555 6/7/2023'', Str ''widget'', NaN,
           Str ''12345 3/4/2024 widget restock'', Str ''gadget'']),
         (''Quantity'', [NaN, NaN, Num 5, NaN, NaN, Num 2])]\<rparr>"

definition example_cleaned :: "string frame" where
  "example_cleaned =
     \<lparr>index = [2, 4, 5],
      columns =
        [(''CID'', [Str ''ID123'', Str ''ID9'', Str ''ID9'']),
         (''Shipment_Date'', [Date ''01-02-23'', Date ''03-04-23'', Date ''03-04-23'']),
         (''Customer_Name'',
          [Str ''Acme Deli'', Str ''Global Deli Express'', Str ''Global Deli Express'']),
         (''Type'', [Str ''Item'', NaN, Str ''Item'']),
         (''No.'', [Str ''1001'', Str ''1001'', Str ''1002'']),
         (''Order_No'', [Str ''55555'', Str ''12345'', Str ''12345'']),
         (''Order_Date'', [Date ''6/7/2023'', Date ''3/4/2024'', Date ''3/4/2024'']),
         (''Description'', [Str ''widget'', Str ''widget restock'', Str ''gadget'']),
         (''Quantity'', [Num 5, NaN, Num 2])]\<rparr>"

text \<open>
  A table whose first row has nothing but an order header in its \<^verbatim>\<open>Description\<close>, and no
  marker.
\<close>

definition example_header_only :: "string frame" where
  "example_header_only =
     \<lparr>index = [0, 1],
      columns =
        [(''Shipment Date'', [Str ''ID1'', NaN]),
         (''Type'', [Str ''Acme Deli'', Str ''Item'']),
         (''No.'', [NaN, Str ''1001'']),
         (''Description'', [Str ''12345 3/4/2024'', Str ''widget''])]\<rparr>"

definition example_header_cleaned :: "string frame" where
  "example_header_cleaned =
     \<lparr>index = [0, 1],
      columns =
        [(''CID'', [Str ''ID1'', Str ''ID1'']), (''Shipment_Date'', [NaN, NaN]),
         (''Customer_Name'', [Str ''Acme Deli'', Str ''Acme Deli'']),
         (''Type'', [NaN, Str ''Item'']), (''No.'', [NaN, Str ''1001'']),
         (''Order_No'', [Str ''12345'', Str ''12345'']),
         (''Order_Date'', [Date ''3/4/2024'', Date ''3/4/2024'']),
         (''Description'', [Str [], Str ''widget''])]\<rparr>"

text \<open>A table whose first row has a \<^verbatim>\<open>No.\<close> that contains the marker without being it.\<close>

definition example_marker_like :: "string frame" where
  "example_marker_like =
     \<lparr>index = [0, 1],
      columns =
        [(''Shipment Date'', [Str ''ID1'', NaN]),
         (''Type'', [Str ''Acme Deli'', Str ''Item'']),
         (''No.'', [Str ''XOrder Now'', Str ''1001'']),
         (''Description'', [Str ''bolt'', Str ''widget''])]\<rparr>"

definition example_marker_cleaned :: "string frame" where
  "example_marker_cleaned =
     \<lparr>index = [1],
      columns =
        [(''CID'', [Str ''ID1'']), (''Shipment_Date'', [NaN]),
         (''Customer_Name'', [Str ''Acme Deli'']), (''Type'', [Str ''Item'']),
         (''No.'', [Str ''1001'']), (''Order_No'', [NaN]), (''Order_Date'', [NaN]),
         (''Description'', [Str ''widget''])]\<rparr>"

text \<open>A table with two order headers in one \<^verbatim>\<open>Description\<close>.\<close>

definition example_two_headers :: "string frame" where
  "example_two_headers =
     \<lparr>index = [0, 1],
      columns =
        [(''Shipment Date'', [Str ''ID1'', NaN]),
         (''Type'', [Str ''Acme Deli'', Str ''Item'']),
         (''No.'', [NaN, Str ''1001'']),
         (''Description'',
          [NaN, Str ''12345 1/2/2024 first 67890 3/4/2024 second''])]\<rparr>"

definition example_two_cleaned :: "string frame" where
  "example_two_cleaned =
     \<lparr>index = [1],
      columns =
        [(''CID'', [Str ''ID1'']), (''Shipment_Date'', [NaN]),
         (''Customer_Name'', [Str ''Acme Deli'']), (''Type'', [Str ''Item'']),
         (''No.'', [Str ''1001'']), (''Order_No'', [Str ''12345'']),
         (''Order_Date'', [Date ''1/2/2024'']),
         (''Description'', [Str ''first  second''])]\<rparr>"

text \<open>A table whose customer id contains a group of digits that looks like a date.\<close>

definition example_embedded_date :: "string frame" where
  "example_embedded_date =
     \<lparr>index = [0, 1],
      columns =
        [(''Shipment Date'', [Str ''C-12-34-56'', NaN]),
         (''Type'', [Str ''Acme Deli'', Str ''Item'']),
         (''No.'', [NaN, Str ''1001'']),
         (''Description'', [NaN, Str ''widget''])]\<rparr>"

definition example_embedded_cleaned :: "string frame" where
  "example_embedded_cleaned =
     \<lparr>index = [1],
      columns =
        [(''CID'', [NaN]), (''Shipment_Date'', [Date ''C-12-34-56'']),
         (''Customer_Name'', [Str ''Acme Deli'']), (''Type'', [Str ''Item'']),
         (''No.'', [Str ''1001'']), (''Order_No'', [NaN]), (''Order_Date'', [NaN]),
         (''Description'', [Str ''widget''])]\<rparr>"

text \<open>A table with a shipment date and an order date that cannot be parsed.\<close>

definition example_bad_dates :: "string frame" where
  "example_bad_dates =
     \<lparr>index = [0, 1, 2],
      columns =
        [(''Shipment Date'', [Str ''ID1'', Str ''bad-00-00-00'', NaN]),
         (''Type'', [Str ''Acme Deli'', NaN, Str ''Item'']),
         (''No.'', [NaN, NaN, Str ''1001'']),
         (''Description'', [NaN, Str ''12345 99/99/9999 bolt'', Str ''widget''])]\<rparr>"

definition example_bad_cleaned :: "string frame" where
  "example_bad_cleaned =
     \<lparr>index = [1, 2],
      columns =
        [(''CID'', [Str ''ID1'', Str ''ID1'']), (''Shipment_Date'', [NaN, NaN]),
         (''Customer_Name'', [Str ''Acme Deli'', Str ''Acme Deli'']),
         (''Type'', [NaN, Str ''Item'']), (''No.'', [NaN, Str ''1001'']),
         (''Order_No'', [Str ''12345'', Str ''12345'']), (''Order_Date'', [NaN, NaN]),
         (''Description'', [Str ''bolt'', Str ''widget''])]\<rparr>"


section \<open>Facts about the operations\<close>

subsection \<open>Boolean masks\<close>

text \<open>
  Selecting with a mask keeps the cells at the positions where the mask holds, in their
  order.
\<close>

lemma select_Nil [simp]: "select [] xs = []" "select keep [] = []"
  by (simp_all add: select_def)

lemma select_Cons [simp]:
  "select (b # keep) (x # xs) = (if b then x # select keep xs else select keep xs)"
  by (simp add: select_def)

lemma select_map: "select keep (map f xs) = map f (select keep xs)"
proof (induction keep arbitrary: xs)
  case Nil
  then show ?case by simp
next
  case (Cons b keep)
  then show ?case by (cases xs) simp_all
qed

lemma select_filter_upt: "select keep [0..<length keep] = filter (\<lambda>i. keep ! i) [0..<length keep]"
proof -
  have "zip keep [0..<length keep] = map (\<lambda>i. (keep ! i, i)) [0..<length keep]"
    by (rule nth_equalityI) simp_all
  then show ?thesis
    by (simp add: select_def filter_map comp_def)
qed

lemma select_via_positions:
  assumes "length keep = length xs"
  shows "select keep xs = map (nth xs) (select keep [0..<length keep])"
proof -
  have "select keep xs = select keep (map (nth xs) [0..<length xs])"
    by (simp add: map_nth)
  also have "\<dots> = map (nth xs) (select keep [0..<length xs])"
    by (rule select_map)
  finally show ?thesis using assms by simp
qed

lemma select_map_filter: "select (map g ys) (map f ys) = map f (filter g ys)"
  by (induction ys) simp_all

lemma double_select:
  assumes "length k1 = n" "length ys = n" "length xs = n"
  shows "select (map g (select k1 ys)) (select k1 xs) =
           map (nth xs) (filter (\<lambda>i. k1 ! i \<and> g (ys ! i)) [0..<n])"
proof -
  let ?F = "filter (\<lambda>i. k1 ! i) [0..<n]"
  have F: "select k1 [0..<n] = ?F"
    using assms(1) select_filter_upt [of k1] by simp
  have xs: "select k1 xs = map (nth xs) ?F"
    using assms select_via_positions [of k1 xs] by (simp add: F)
  have ys: "select k1 ys = map (nth ys) ?F"
    using assms select_via_positions [of k1 ys] by (simp add: F)
  have "select (map g (select k1 ys)) (select k1 xs) =
          select (map (\<lambda>i. g (ys ! i)) ?F) (map (nth xs) ?F)"
    by (simp add: xs ys comp_def)
  also have "\<dots> = map (nth xs) (filter (\<lambda>i. g (ys ! i)) ?F)"
    by (rule select_map_filter)
  finally show ?thesis by (simp add: conj_commute)
qed

lemma length_select: "length keep = length xs \<Longrightarrow> length (select keep xs) = length (filter id keep)"
  by (induction keep xs rule: list_induct2) simp_all

lemma length_select_split:
  "length keep = length xs \<Longrightarrow>
   length (select keep xs) + length (select (map Not keep) xs) = length xs"
  by (induction keep xs rule: list_induct2) simp_all

lemma mset_select_split:
  "length keep = length xs \<Longrightarrow>
   mset (select keep xs) + mset (select (map Not keep) xs) = mset xs"
  by (induction keep xs rule: list_induct2) simp_all

lemma select_member:
  assumes "distinct xs" "length keep = length xs" "k < length xs"
  shows "xs ! k \<in> set (select keep xs) \<longleftrightarrow> keep ! k"
proof -
  have "select keep xs = map (nth xs) (filter (\<lambda>i. keep ! i) [0..<length keep])"
    using select_via_positions [OF assms(2)] by (simp add: select_filter_upt)
  then have "set (select keep xs) = nth xs ` {i. i < length xs \<and> keep ! i}"
    using assms(2) by auto
  then show ?thesis
    using assms(1,3) by (auto simp add: nth_eq_iff_index_eq)
qed

subsection \<open>Masked columns and the forward fill\<close>

lemma length_series_where [simp]: "length (series_where col cond) = min (length col) (length cond)"
  by (simp add: series_where_def)

lemma series_where_Cons [simp]:
  "series_where (c # col) (b # cond) = (if b then c else NaN) # series_where col cond"
  by (simp add: series_where_def)

lemma series_where_Nil [simp]: "series_where [] cond = []" "series_where col [] = []"
  by (simp_all add: series_where_def)

lemma series_where_nth:
  "i < length col \<Longrightarrow> i < length cond \<Longrightarrow>
   series_where col cond ! i = (if cond ! i then col ! i else NaN)"
  by (simp add: series_where_def)

lemma series_where_keeps:
  "c \<in> set (series_where col (map (\<lambda>x. \<not> P x) col)) \<Longrightarrow> \<not> P NaN \<Longrightarrow> \<not> P c"
  by (induction col) (auto split: if_splits)

lemma length_ffill_from [simp]: "length (ffill_from a xs) = length xs"
  by (induction xs arbitrary: a) simp_all

lemma length_ffill [simp]: "length (ffill xs) = length xs"
  by (simp add: ffill_def)

lemma ffill_from_0: "xs \<noteq> [] \<Longrightarrow> ffill_from a xs ! 0 = (if xs ! 0 = NaN then a else xs ! 0)"
  by (cases xs) simp_all

lemma ffill_from_Suc:
  "Suc i < length xs \<Longrightarrow>
   ffill_from a xs ! Suc i = (if xs ! Suc i = NaN then ffill_from a xs ! i else xs ! Suc i)"
proof (induction xs arbitrary: a i)
  case Nil
  then show ?case by simp
next
  case (Cons c cs)
  show ?case
  proof (cases i)
    case 0
    with Cons.prems show ?thesis by (cases cs) auto
  next
    case (Suc i')
    with Cons.prems have "Suc i' < length cs" by simp
    from Cons.IH [OF this] Suc show ?thesis by simp
  qed
qed

lemma ffill_keeps: "i < length col \<Longrightarrow> col ! i \<noteq> NaN \<Longrightarrow> ffill col ! i = col ! i"
  by (cases i) (simp_all add: ffill_def ffill_from_0 ffill_from_Suc)

lemma set_ffill_from: "set (ffill_from a xs) \<subseteq> insert a (set xs)"
  by (induction xs arbitrary: a) auto

lemma select_ffill_from:
  "length keep = length xs \<Longrightarrow>
   select keep (ffill_from a (series_where xs keep)) = ffill_from a (select keep xs)"
  by (induction keep xs arbitrary: a rule: list_induct2) simp_all

lemma nearest_preceding_0:
  "nearest_preceding col 0 v \<longleftrightarrow> v = col ! 0"
  by (auto simp add: nearest_preceding_def)

lemma nearest_preceding_Suc:
  "nearest_preceding col (Suc i) v \<longleftrightarrow>
     (if col ! Suc i = NaN then nearest_preceding col i v else v = col ! Suc i)"
proof (cases "col ! Suc i = NaN")
  case True
  have a: "(\<forall>m. j < m \<and> m \<le> Suc i \<longrightarrow> col ! m = NaN) \<longleftrightarrow> (\<forall>m. j < m \<and> m \<le> i \<longrightarrow> col ! m = NaN)" for j
    using True by (metis le_Suc_eq)
  have b: "(\<forall>j\<le>Suc i. col ! j = NaN) \<longleftrightarrow> (\<forall>j\<le>i. col ! j = NaN)"
    using True by (metis le_Suc_eq)
  have c: "(\<exists>j\<le>Suc i. col ! j \<noteq> NaN \<and> P j) \<longleftrightarrow> (\<exists>j\<le>i. col ! j \<noteq> NaN \<and> P j)" for P
    using True by (metis le_Suc_eq)
  show ?thesis
    unfolding nearest_preceding_def a b using True c by simp
next
  case False
  have "nearest_preceding col (Suc i) v \<longleftrightarrow> v = col ! Suc i"
  proof
    assume "nearest_preceding col (Suc i) v"
    then obtain j where j: "j \<le> Suc i" "col ! j \<noteq> NaN"
      "\<forall>m. j < m \<and> m \<le> Suc i \<longrightarrow> col ! m = NaN" "v = col ! j"
      using False unfolding nearest_preceding_def by blast
    with False have "j = Suc i" by (metis le_neq_implies_less order_refl)
    with j(4) show "v = col ! Suc i" by simp
  next
    assume "v = col ! Suc i"
    with False show "nearest_preceding col (Suc i) v"
      unfolding nearest_preceding_def by (intro disjI1 exI [of _ "Suc i"]) auto
  qed
  with False show ?thesis by simp
qed

lemma ffill_nearest_preceding:
  "i < length col \<Longrightarrow> nearest_preceding col i (ffill col ! i)"
proof (induction i)
  case 0
  then show ?case
    by (cases col) (simp_all add: nearest_preceding_0 ffill_def)
next
  case (Suc i)
  then show ?case
    by (simp add: nearest_preceding_Suc ffill_def ffill_from_Suc)
qed

lemma nearest_preceding_unique:
  "nearest_preceding col i v \<Longrightarrow> nearest_preceding col i w \<Longrightarrow> v = w"
  by (induction i) (auto simp add: nearest_preceding_0 nearest_preceding_Suc split: if_splits)

lemma first_valid_ffill: "first_valid (ffill col) = first_valid col"
  unfolding ffill_def by (induction col) simp_all

lemma to_datetime_nth:
  "i < length col \<Longrightarrow> to_datetime parse col ! i = to_datetime1 parse (first_valid col) (col ! i)"
  by (simp add: to_datetime_def)

subsection \<open>The matcher\<close>

text \<open>
  A match takes from the text what fits the items, one stretch per item; a search finds a
  match exactly when the text contains such stretches, and it finds the leftmost one.
  Removing the matches is removing the first and going on in the rest of the text.
\<close>

lemma first_down_Some:
  "first_down f l k = Some r \<Longrightarrow> \<exists>j. l \<le> j \<and> j \<le> k \<and> f j = Some r"
proof (induction k)
  case 0
  then show ?case by (auto split: if_splits)
next
  case (Suc k)
  show ?case
  proof (cases "f (Suc k)")
    case None
    with Suc.prems have "first_down f l k = Some r" by (simp split: if_splits)
    from Suc.IH [OF this] show ?thesis by (meson le_Suc_eq)
  next
    case (Some a)
    with Suc.prems have "l \<le> Suc k" "f (Suc k) = Some r" by (auto split: if_splits)
    then show ?thesis by blast
  qed
qed

lemma first_down_None:
  "first_down f l k = None \<Longrightarrow> l \<le> j \<Longrightarrow> j \<le> k \<Longrightarrow> f j = None"
proof (induction k)
  case 0
  then show ?case by (auto split: if_splits)
next
  case (Suc k)
  then show ?case by (cases "j = Suc k") (auto split: if_splits option.splits)
qed

lemma match_here_sound:
  "match_here its s = Some (gs, rest) \<Longrightarrow> s = concat gs @ rest \<and> list_all2 fits its gs"
proof (induction its arbitrary: s gs rest)
  case Nil
  then show ?case by simp
next
  case (Cons it its)
  obtain p l h where it: "it = Rep p l h" by (cases it)
  define kmax where "kmax = (case h of None \<Rightarrow> length (takeWhile p s)
                             | Some m \<Rightarrow> min m (length (takeWhile p s)))"
  let ?f = "\<lambda>k. case match_here its (drop k s) of None \<Rightarrow> None
                 | Some (gs, rest) \<Rightarrow> Some (take k s # gs, rest)"
  from Cons.prems have "first_down ?f l kmax = Some (gs, rest)"
    by (simp add: it kmax_def Let_def)
  from first_down_Some [OF this] obtain j where j: "l \<le> j" "j \<le> kmax" "?f j = Some (gs, rest)"
    by blast
  from j(3) obtain gs' where gs': "match_here its (drop j s) = Some (gs', rest)" "gs = take j s # gs'"
    by (auto split: option.splits)
  from Cons.IH [OF gs'(1)] have ih: "drop j s = concat gs' @ rest" "list_all2 fits its gs'"
    by simp_all
  have jw: "j \<le> length (takeWhile p s)" and jh: "case h of None \<Rightarrow> True | Some m \<Rightarrow> j \<le> m"
    using j(2) by (auto simp add: kmax_def split: option.splits)
  have "take j s = take j (takeWhile p s @ dropWhile p s)" by simp
  also have "\<dots> = take j (takeWhile p s)" using jw by (simp del: takeWhile_dropWhile_id)
  finally have tk: "take j s = take j (takeWhile p s)" .
  have "list_all p (take j s)"
    unfolding tk list_all_iff by (meson in_set_takeD set_takeWhileD)
  moreover have "length (take j s) = j"
    using jw length_takeWhile_le [of p s] by simp
  ultimately have ft: "fits it (take j s)"
    using j(1) jh by (auto simp add: it split: option.splits)
  have "s = take j s @ drop j s" by simp
  also have "\<dots> = take j s @ concat gs' @ rest" by (simp only: ih(1))
  also have "\<dots> = concat gs @ rest" by (simp add: gs'(2))
  finally have eq: "s = concat gs @ rest" .
  have "list_all2 fits (it # its) gs"
    unfolding gs'(2) using ft ih(2) by simp
  with eq show ?case by (rule conjI)
qed

lemma match_here_complete:
  "list_all2 fits its gs \<Longrightarrow> match_here its (concat gs @ rest) \<noteq> None"
proof (induction its gs rule: list_all2_induct)
  case Nil
  then show ?case by simp
next
  case (Cons it its g gs)
  obtain p l h where it: "it = Rep p l h" by (cases it)
  define s' where "s' = concat gs @ rest"
  define s where "s = g @ s'"
  define kmax where "kmax = (case h of None \<Rightarrow> length (takeWhile p s)
                             | Some m \<Rightarrow> min m (length (takeWhile p s)))"
  let ?f = "\<lambda>k. case match_here its (drop k s) of None \<Rightarrow> None
                 | Some (gs, rest) \<Rightarrow> Some (take k s # gs, rest)"
  from Cons.hyps(1) have g: "list_all p g" "l \<le> length g"
    "case h of None \<Rightarrow> True | Some m \<Rightarrow> length g \<le> m"
    by (simp_all add: it)
  have "takeWhile p s = g @ takeWhile p s'"
    using g(1) by (simp add: s_def list_all_iff)
  then have "length g \<le> length (takeWhile p s)" by simp
  with g(3) have le: "length g \<le> kmax"
    by (auto simp add: kmax_def split: option.splits)
  have "match_here its s' \<noteq> None"
    using Cons.IH by (simp add: s'_def)
  then have "?f (length g) \<noteq> None"
    by (auto simp add: s_def split: option.splits)
  then have "first_down ?f l kmax \<noteq> None"
    using first_down_None [of ?f l kmax "length g", OF _ g(2) le]
    by (cases "first_down ?f l kmax") simp_all
  then have "match_here (it # its) s \<noteq> None"
    by (simp add: it kmax_def Let_def)
  then show ?case by (simp add: s_def s'_def)
qed

lemma search_sound:
  "search its s = Some (pre, gs, rest) \<Longrightarrow>
     s = pre @ concat gs @ rest \<and> match_here its (concat gs @ rest) = Some (gs, rest)"
proof (induction its s arbitrary: pre rule: search.induct)
  case (1 its)
  then have m: "match_here its [] = Some (gs, rest)" "pre = []"
    by (auto split: option.splits)
  from match_here_sound [OF m(1)] have e: "concat gs @ rest = []" by simp
  show ?case unfolding e using m by simp
next
  case (2 its c cs)
  show ?case
  proof (cases "match_here its (c # cs)")
    case None
    with "2.prems" obtain pre' where p: "search its cs = Some (pre', gs, rest)" "pre = c # pre'"
      by (auto split: option.splits)
    from "2.IH" [OF None p(1)] p(2) show ?thesis by simp
  next
    case (Some a)
    with "2.prems" have "a = (gs, rest)" "pre = []" by auto
    with Some match_here_sound [of its "c # cs" gs rest] show ?thesis by auto
  qed
qed

lemma search_complete:
  "match_here its s \<noteq> None \<Longrightarrow> search its (pre @ s) \<noteq> None"
proof (induction pre)
  case Nil
  then show ?case by (cases s) (auto split: option.splits)
next
  case (Cons c pre)
  then show ?case by (auto split: option.splits)
qed

lemma search_iff:
  "search its s \<noteq> None \<longleftrightarrow> (\<exists>pre gs rest. s = pre @ concat gs @ rest \<and> list_all2 fits its gs)"
proof
  assume "search its s \<noteq> None"
  then obtain pre gs rest where "search its s = Some (pre, gs, rest)" by auto
  from search_sound [OF this] match_here_sound [of its "concat gs @ rest" gs rest]
  show "\<exists>pre gs rest. s = pre @ concat gs @ rest \<and> list_all2 fits its gs" by blast
next
  assume "\<exists>pre gs rest. s = pre @ concat gs @ rest \<and> list_all2 fits its gs"
  then obtain pre gs rest where s: "s = pre @ concat gs @ rest" and f: "list_all2 fits its gs"
    by blast
  from match_here_complete [OF f] show "search its s \<noteq> None"
    unfolding s by (rule search_complete)
qed

lemma search_leftmost:
  "search its s = Some (pre, gs, rest) \<Longrightarrow> pre = p @ c # q \<Longrightarrow>
   match_here its (c # q @ concat gs @ rest) = None"
proof (induction s arbitrary: pre p)
  case Nil
  then show ?case by (auto split: option.splits)
next
  case (Cons x xs)
  note prems = Cons.prems and ih = Cons.IH
  from prems have none: "match_here its (x # xs) = None"
    by (auto split: option.splits)
  with prems(1) obtain pre' where
    found: "search its xs = Some (pre', gs, rest)" "pre = x # pre'"
    by (auto split: option.splits)
  from search_sound [OF found(1)] have xs: "xs = pre' @ concat gs @ rest" by simp
  show ?case
  proof (cases p)
    case Nil
    with prems(2) found(2) have "x = c" "pre' = q" by simp_all
    with none xs show ?thesis by simp
  next
    case (Cons y p')
    with prems(2) found(2) have "pre' = p' @ c # q" by simp
    from ih [OF found(1) this] show ?thesis .
  qed
qed

lemma sub_from_skip: "sub_from its k s = sub_from its 0 (drop k s)"
proof (induction s arbitrary: k)
  case Nil
  then show ?case by simp
next
  case (Cons c cs)
  show ?case
  proof (cases k)
    case 0
    then show ?thesis by simp
  next
    case (Suc k')
    with Cons.IH [of k'] show ?thesis by simp
  qed
qed

lemma sub_from_no_match: "search its s = None \<Longrightarrow> sub_from its 0 s = s"
  by (induction s) (auto split: option.splits)

lemma sub_from_search:
  "search its s = Some (pre, gs, rest) \<Longrightarrow> concat gs \<noteq> [] \<Longrightarrow>
   sub_from its 0 s = pre @ sub_from its 0 rest"
proof (induction s arbitrary: pre)
  case Nil
  then have "match_here its [] = Some (gs, rest)" by (auto split: option.splits)
  from match_here_sound [OF this] Nil.prems(2) show ?case by simp
next
  case (Cons c cs)
  show ?case
  proof (cases "match_here its (c # cs)")
    case None
    with Cons.prems obtain pre' where p: "search its cs = Some (pre', gs, rest)" "pre = c # pre'"
      by (auto split: option.splits)
    from Cons.IH [OF p(1) Cons.prems(2)] None p(2) show ?thesis by simp
  next
    case (Some a)
    with Cons.prems have a: "a = (gs, rest)" "pre = []" by auto
    from match_here_sound [of its "c # cs" gs rest] Some a
    have s: "c # cs = concat gs @ rest" by simp
    obtain n where n: "length (concat gs) = Suc n"
      using Cons.prems(2) by (cases "concat gs") auto
    have "drop (Suc n) (c # cs) = rest"
      unfolding s using n by simp
    then have "drop n cs = rest" by simp
    with Some a n show ?thesis
      using sub_from_skip [of its n cs] by simp
  qed
qed

subsection \<open>The three patterns\<close>

lemma marker_containment:
  assumes "c \<noteq> CHR 0x0A"
  shows "str_contains1 marker_pattern (Str (a @ ''Order No'' @ c # b))"
proof -
  have "list_all2 fits (items_of marker_pattern)
          [''O'', ''r'', ''d'', ''e'', ''r'', '' '', ''N'', ''o'', [c]]"
    using assms by (simp add: marker_pattern_def lit_def any_char_def)
  moreover have "a @ ''Order No'' @ c # b =
      a @ concat [''O'', ''r'', ''d'', ''e'', ''r'', '' '', ''N'', ''o'', [c]] @ b"
    by simp
  ultimately have "search (items_of marker_pattern) (a @ ''Order No'' @ c # b) \<noteq> None"
    unfolding search_iff by blast
  then show ?thesis by simp
qed

lemma order_items:
  "items_of order_pattern =
     [Rep is_digit 5 None, Rep is_space 1 None, Rep is_digit 1 (Some 2), lit CHR ''/'',
      Rep is_digit 1 (Some 2), lit CHR ''/'', Rep is_digit 4 (Some 4)]"
  by (simp add: order_pattern_def)

lemma order_match_groups:
  assumes "match_here (items_of order_pattern) s = Some (gs, rest)"
  shows "concat gs \<noteq> []"
    and "captures order_pattern gs = [hd gs, concat (drop 2 gs)]"
proof -
  from match_here_sound [OF assms]
  have "list_all2 fits (items_of order_pattern) gs" by simp
  then obtain g1 g2 g3 g4 g5 g6 g7 where
    gs: "gs = [g1, g2, g3, g4, g5, g6, g7]" and g1: "5 \<le> length g1"
    unfolding order_items by (auto simp add: list_all2_Cons1)
  from g1 show "concat gs \<noteq> []" by (auto simp add: gs)
  show "captures order_pattern gs = [hd gs, concat (drop 2 gs)]"
    by (simp add: gs order_pattern_def)
qed

lemma order_search_groups:
  assumes "search (items_of order_pattern) s = Some (pre, gs, rest)"
  shows "concat gs \<noteq> []"
    and "captures order_pattern gs = [hd gs, concat (drop 2 gs)]"
  using search_sound [OF assms] order_match_groups [of "concat gs @ rest" gs rest]
  by simp_all

lemma re_sub_order_twice:
  assumes "search (items_of order_pattern) s = Some (pre1, gs1, rest1)"
    and "search (items_of order_pattern) rest1 = Some (pre2, gs2, rest2)"
  shows "re_sub_empty order_pattern s = pre1 @ pre2 @ re_sub_empty order_pattern rest2"
  unfolding re_sub_empty_def
  using sub_from_search [OF assms(1) order_search_groups(1) [OF assms(1)]]
    sub_from_search [OF assms(2) order_search_groups(1) [OF assms(2)]]
  by simp

lemma order_example_search:
  "search (items_of order_pattern) ''12345 3/4/2024 widget restock'' =
     Some ([], [''12345'', '' '', ''3'', ''/'', ''4'', ''/'', ''2024''], '' widget restock'')"
  by code_simp

lemma order_example_sub:
  "strip (re_sub_empty order_pattern ''12345 3/4/2024 widget restock'') = ''widget restock''"
  by code_simp

lemma date_items:
  "items_of date_pattern =
     [Rep is_digit 2 (Some 2), lit CHR ''-'', Rep is_digit 2 (Some 2), lit CHR ''-'',
      Rep is_digit 2 (Some 2)]"
  by (simp add: date_pattern_def)

lemma fits_two_digits:
  "fits (Rep is_digit 2 (Some 2)) g \<longleftrightarrow> (\<exists>a b. g = [a, b] \<and> is_digit a \<and> is_digit b)"
proof
  assume "fits (Rep is_digit 2 (Some 2)) g"
  then have "length g = 2" "list_all is_digit g" by simp_all
  then show "\<exists>a b. g = [a, b] \<and> is_digit a \<and> is_digit b"
    by (cases g; cases "tl g") auto
next
  assume "\<exists>a b. g = [a, b] \<and> is_digit a \<and> is_digit b"
  then show "fits (Rep is_digit 2 (Some 2)) g" by auto
qed

lemma fits_lit: "fits (lit c) g \<longleftrightarrow> g = [c]"
proof
  assume "fits (lit c) g"
  then have "length g = 1" "list_all (\<lambda>x. x = c) g" by (simp_all add: lit_def)
  then show "g = [c]" by (cases g) auto
next
  assume "g = [c]"
  then show "fits (lit c) g" by (simp add: lit_def)
qed

lemma fits_date_items:
  "list_all2 fits (items_of date_pattern) gs \<longleftrightarrow>
     (\<exists>d1 d2 d3 d4 d5 d6.
        gs = [[d1, d2], ''-'', [d3, d4], ''-'', [d5, d6]] \<and>
        list_all is_digit [d1, d2, d3, d4, d5, d6])"
proof
  assume "list_all2 fits (items_of date_pattern) gs"
  then obtain g1 g2 g3 g4 g5 where gs: "gs = [g1, g2, g3, g4, g5]"
    and f: "fits (Rep is_digit 2 (Some 2)) g1" "fits (lit CHR ''-'') g2"
      "fits (Rep is_digit 2 (Some 2)) g3" "fits (lit CHR ''-'') g4"
      "fits (Rep is_digit 2 (Some 2)) g5"
    unfolding date_items by (auto simp add: list_all2_Cons1 simp del: fits.simps)
  from f(1) obtain d1 d2 where g1: "g1 = [d1, d2]" "is_digit d1" "is_digit d2"
    unfolding fits_two_digits by blast
  from f(3) obtain d3 d4 where g3: "g3 = [d3, d4]" "is_digit d3" "is_digit d4"
    unfolding fits_two_digits by blast
  from f(5) obtain d5 d6 where g5: "g5 = [d5, d6]" "is_digit d5" "is_digit d6"
    unfolding fits_two_digits by blast
  from f(2,4) have g2: "g2 = ''-''" "g4 = ''-''"
    unfolding fits_lit by simp_all
  have "gs = [[d1, d2], ''-'', [d3, d4], ''-'', [d5, d6]]"
    by (simp add: gs g1(1) g2 g3(1) g5(1))
  moreover have "list_all is_digit [d1, d2, d3, d4, d5, d6]"
    using g1 g3 g5 by simp
  ultimately show "\<exists>d1 d2 d3 d4 d5 d6.
        gs = [[d1, d2], ''-'', [d3, d4], ''-'', [d5, d6]] \<and>
        list_all is_digit [d1, d2, d3, d4, d5, d6]"
    by blast
next
  assume "\<exists>d1 d2 d3 d4 d5 d6.
        gs = [[d1, d2], ''-'', [d3, d4], ''-'', [d5, d6]] \<and>
        list_all is_digit [d1, d2, d3, d4, d5, d6]"
  then obtain d1 d2 d3 d4 d5 d6 where
    gs: "gs = [[d1, d2], ''-'', [d3, d4], ''-'', [d5, d6]]"
    and d: "list_all is_digit [d1, d2, d3, d4, d5, d6]"
    by blast
  show "list_all2 fits (items_of date_pattern) gs"
    unfolding date_items gs using d by (simp add: lit_def)
qed

lemma contains_date_iff: "str_contains1 date_pattern c \<longleftrightarrow> has_date_group c"
proof (cases c)
  case (Str s)
  have "search (items_of date_pattern) s \<noteq> None \<longleftrightarrow>
          (\<exists>a b d1 d2 d3 d4 d5 d6.
             s = a @ [d1, d2, CHR ''-'', d3, d4, CHR ''-'', d5, d6] @ b \<and>
             list_all is_digit [d1, d2, d3, d4, d5, d6])"
  proof
    assume "search (items_of date_pattern) s \<noteq> None"
    then obtain pre gs rest where
      s: "s = pre @ concat gs @ rest" and "list_all2 fits (items_of date_pattern) gs"
      unfolding search_iff by blast
    then obtain d1 d2 d3 d4 d5 d6 where
      gs: "gs = [[d1, d2], ''-'', [d3, d4], ''-'', [d5, d6]]"
      and d: "list_all is_digit [d1, d2, d3, d4, d5, d6]"
      unfolding fits_date_items by blast
    have "s = pre @ [d1, d2, CHR ''-'', d3, d4, CHR ''-'', d5, d6] @ rest"
      by (simp add: s gs)
    with d show "\<exists>a b d1 d2 d3 d4 d5 d6.
             s = a @ [d1, d2, CHR ''-'', d3, d4, CHR ''-'', d5, d6] @ b \<and>
             list_all is_digit [d1, d2, d3, d4, d5, d6]"
      by blast
  next
    assume "\<exists>a b d1 d2 d3 d4 d5 d6.
             s = a @ [d1, d2, CHR ''-'', d3, d4, CHR ''-'', d5, d6] @ b \<and>
             list_all is_digit [d1, d2, d3, d4, d5, d6]"
    then obtain a b d1 d2 d3 d4 d5 d6 where
      s: "s = a @ [d1, d2, CHR ''-'', d3, d4, CHR ''-'', d5, d6] @ b"
      and d: "list_all is_digit [d1, d2, d3, d4, d5, d6]"
      by blast
    have "s = a @ concat [[d1, d2], ''-'', [d3, d4], ''-'', [d5, d6]] @ b"
      by (simp add: s)
    moreover have "list_all2 fits (items_of date_pattern) [[d1, d2], ''-'', [d3, d4], ''-'', [d5, d6]]"
      unfolding fits_date_items using d by blast
    ultimately show "search (items_of date_pattern) s \<noteq> None"
      unfolding search_iff by blast
  qed
  with Str show ?thesis by (simp add: has_date_group_def)
qed (simp_all add: has_date_group_def)

lemma endswith_iff: "endswith s suf \<longleftrightarrow> (\<exists>p. s = p @ suf)"
proof
  assume "endswith s suf"
  then have "s = take (length s - length suf) s @ suf"
    by (metis append_take_drop_id endswith_def)
  then show "\<exists>p. s = p @ suf" ..
next
  assume "\<exists>p. s = p @ suf"
  then show "endswith s suf" by (auto simp add: endswith_def)
qed

subsection \<open>Frames\<close>

lemma getitem_Inr: "getitem df name = Inr col \<longleftrightarrow> map_of (columns df) name = Some col"
  by (simp add: getitem_def split: option.splits)

lemma getitem_setitem:
  "getitem (setitem df name col) x = (if x = name then Inr col else getitem df x)"
  by (simp add: getitem_def setitem_def update_conv')

lemma index_setitem [simp]: "index (setitem df name col) = index df"
  by (simp add: setitem_def)

lemma getitem_setitems2:
  "getitem (setitems df [a, b] [ca, cb]) x =
     (if x = b then Inr cb else if x = a then Inr ca else getitem df x)"
  by (simp add: setitems_def getitem_setitem)

lemma index_setitems2 [simp]: "index (setitems df [a, b] [ca, cb]) = index df"
  by (simp add: setitems_def)

lemma map_of_select_columns:
  "map_of (map (\<lambda>(name, col). (name, f col)) cs) x = map_option f (map_of cs x)"
  by (induction cs) auto

lemma getitem_select_rows:
  "getitem (select_rows df keep) x = map_sum id (select keep) (getitem df x)"
  by (simp add: getitem_def select_rows_def map_of_select_columns split: option.splits)

lemma index_select_rows [simp]: "index (select_rows df keep) = select keep (index df)"
  by (simp add: select_rows_def)

lemma map_of_map_filter:
  "map_of (List.map_filter (\<lambda>name. map_option (Pair name) (m name)) names) x =
     (if x \<in> set names then m x else None)"
  by (induction names) (auto simp add: List.map_filter_simps split: option.splits)

lemma getitem_project:
  "getitem (project df names) x =
     (if x \<in> set names then getitem df x else Inl (KeyError x))"
  by (simp add: getitem_def project_def map_of_map_filter)

lemma index_project [simp]: "index (project df names) = index df"
  by (simp add: project_def)

lemma well_formed_length:
  "well_formed df \<Longrightarrow> getitem df name = Inr col \<Longrightarrow> length col = length (index df)"
  by (auto simp add: well_formed_def getitem_Inr dest!: map_of_SomeD)

lemma well_formed_uniform: "well_formed df \<Longrightarrow> uniform df"
  by (simp add: well_formed_def uniform_def)

lemma all_update:
  "\<forall>c \<in> snd ` set al. P c \<Longrightarrow> P v \<Longrightarrow> \<forall>c \<in> snd ` set (AList.update k v al). P c"
  by (induction al) auto

lemma uniform_setitem:
  assumes "uniform df" "length col = length (index df)"
  shows "uniform (setitem df name col)"
proof -
  have "\<forall>c \<in> snd ` set (AList.update name col (columns df)). length c = length (index df)"
    using assms by (intro all_update) (simp_all add: uniform_def)
  then show ?thesis by (simp add: uniform_def setitem_def)
qed

lemma uniform_setitems2:
  "uniform df \<Longrightarrow> length ca = length (index df) \<Longrightarrow> length cb = length (index df) \<Longrightarrow>
   uniform (setitems df [a, b] [ca, cb])"
  by (simp add: setitems_def uniform_setitem)

lemma uniform_select_rows:
  "uniform df \<Longrightarrow> length keep = length (index df) \<Longrightarrow> uniform (select_rows df keep)"
  unfolding uniform_def select_rows_def
  by (auto simp add: length_select)

lemma all_map_filter:
  "\<forall>c \<in> snd ` set al. P c \<Longrightarrow>
   \<forall>c \<in> snd ` set (List.map_filter (\<lambda>n. map_option (Pair n) (map_of al n)) names). P c"
proof (induction names)
  case Nil
  then show ?case by (simp add: List.map_filter_simps)
next
  case (Cons n names)
  show ?case
  proof (cases "map_of al n")
    case None
    with Cons show ?thesis by (simp add: List.map_filter_simps)
  next
    case (Some c)
    then have "c \<in> snd ` set al" by (force dest: map_of_SomeD)
    with Cons.prems have "P c" by blast
    with Cons Some show ?thesis by (simp add: List.map_filter_simps)
  qed
qed

lemma uniform_project:
  assumes "uniform df"
  shows "uniform (project df names)"
proof -
  have "\<forall>c \<in> snd ` set (List.map_filter (\<lambda>n. map_option (Pair n) (map_of (columns df) n)) names).
          length c = length (index df)"
    using assms by (intro all_map_filter) (simp add: uniform_def)
  then show ?thesis by (simp add: uniform_def project_def)
qed

lemma length_rows [simp]: "length (rows df) = length (index df)"
  by (simp add: rows_def)

lemma rows_nth:
  "i < length (index df) \<Longrightarrow>
   rows df ! i = (index df ! i, map (\<lambda>(name, col). (name, col ! i)) (columns df))"
  by (simp add: rows_def)

lemma rows_select_rows:
  assumes "uniform df" "length keep = length (index df)"
  shows "rows (select_rows df keep) = select keep (rows df)"
proof -
  define n where "n = length (index df)"
  define ks where "ks = select keep [0..<n]"
  have sel: "select keep xs = map (nth xs) ks" if "length xs = n" for xs :: "'b list"
    using select_via_positions [of keep xs] assms(2) that by (simp add: ks_def n_def)
  have ksn: "ks ! k < n" if "k < length ks" for k
  proof -
    have "set ks \<subseteq> {0..<n}"
      using assms(2) select_filter_upt [of keep] by (auto simp add: ks_def n_def)
    with that show ?thesis by (meson atLeastLessThan_iff nth_mem subsetD)
  qed
  have cols: "length col = n" if "(name, col) \<in> set (columns df)" for name col
    using assms(1) that by (force simp add: uniform_def n_def)
  have idx: "index (select_rows df keep) = map (nth (index df)) ks"
    by (simp add: sel n_def)
  have cls: "columns (select_rows df keep) =
               map (\<lambda>(name, col). (name, map (nth col) ks)) (columns df)"
    unfolding select_rows_def using cols by (auto simp add: sel)
  have rhs: "select keep (rows df) = map (nth (rows df)) ks"
    by (rule sel) (simp add: n_def)
  show ?thesis
  proof (rule nth_equalityI)
    show "length (rows (select_rows df keep)) = length (select keep (rows df))"
      unfolding rhs length_rows idx by simp
  next
    fix k assume "k < length (rows (select_rows df keep))"
    then have k: "k < length ks" unfolding length_rows idx by simp
    have "rows (select_rows df keep) ! k =
            (index df ! (ks ! k),
             map (\<lambda>(name, col). (name, col ! k))
               (map (\<lambda>(name, col). (name, map (nth col) ks)) (columns df)))"
      using k unfolding rows_def idx cls by simp
    also have "map (\<lambda>(name, col). (name, col ! k))
               (map (\<lambda>(name, col). (name, map (nth col) ks)) (columns df)) =
              map (\<lambda>(name, col). (name, col ! (ks ! k))) (columns df)"
      using k by (induction "columns df") (auto simp add: split_def)
    also have "(index df ! (ks ! k), map (\<lambda>(name, col). (name, col ! (ks ! k))) (columns df)) =
               rows df ! (ks ! k)"
      using ksn [OF k] by (simp add: rows_nth n_def)
    also have "\<dots> = select keep (rows df) ! k"
      unfolding rhs using k by simp
    finally show "rows (select_rows df keep) ! k = select keep (rows df) ! k" .
  qed
qed

subsection \<open>The cleaned table, column by column\<close>

text \<open>
  The table that \<^verbatim>\<open>clean_data\<close> returns: its rows are the rows of
  the input that pass the two filters, and each of its columns is the column the code
  computed, read at those rows.
\<close>

lemma str_extract_order:
  "str_extract order_pattern desc =
     [map (str_extract1 order_pattern 0) desc, map (str_extract1 order_pattern 1) desc]"
  by (simp add: str_extract_def order_pattern_def upt_rec)

lemma clean_data_success:
  assumes "getitem df ''Type'' = Inr ty" "getitem df ''Shipment Date'' = Inr sd"
    "getitem df ''Description'' = Inr desc" "getitem df ''No.'' = Inr no"
  shows "\<exists>out. clean_data parse df = Inr out"
  using assms
  by (simp add: clean_data_def Let_def getitem_setitem getitem_setitems2 str_extract_order)

lemma clean_data_columns:
  assumes ok: "clean_data parse df = Inr out"
  obtains ty sd desc no where
    "getitem df ''Type'' = Inr ty" "getitem df ''Shipment Date'' = Inr sd"
    "getitem df ''Description'' = Inr desc" "getitem df ''No.'' = Inr no"
proof -
  from ok obtain ty where ty: "getitem df ''Type'' = Inr ty"
    by (auto simp add: clean_data_def split: sum.splits)
  from ok ty obtain sd where sd: "getitem df ''Shipment Date'' = Inr sd"
    by (auto simp add: clean_data_def Let_def getitem_setitem split: sum.splits)
  from ok ty sd obtain desc where desc: "getitem df ''Description'' = Inr desc"
    by (auto simp add: clean_data_def Let_def getitem_setitem split: sum.splits)
  from ok ty sd desc obtain no where no: "getitem df ''No.'' = Inr no"
    by (auto simp add: clean_data_def Let_def getitem_setitem getitem_setitems2 str_extract_order
        split: sum.splits)
  from ty sd desc no that show thesis by blast
qed

lemma clean_data_out:
  assumes ok: "clean_data parse df = Inr out"
    and cols: "getitem df ''Type'' = Inr ty" "getitem df ''Shipment Date'' = Inr sd"
      "getitem df ''Description'' = Inr desc" "getitem df ''No.'' = Inr no"
  defines "k1 \<equiv> map Not (str_contains marker_pattern no)"
  defines "desc' \<equiv> map str_strip1 (map (str_replace1 order_pattern) desc)"
  defines "k2 \<equiv> map (\<lambda>c. c \<noteq> NaN) (select k1 desc')"
  shows "index out = select k2 (select k1 (index df))"
    and "getitem out ''Customer_Name'' =
           Inr (select k2 (select k1 (ffill (series_where ty (map (\<lambda>c. c \<noteq> Str ''Item'') ty)))))"
    and "getitem out ''Type'' =
           Inr (select k2 (select k1 (series_where ty (map (\<lambda>c. c = Str ''Item'') ty))))"
    and "getitem out ''CID'' =
           Inr (select k2 (select k1 (ffill (series_where sd (map Not (str_contains date_pattern sd))))))"
    and "getitem out ''Shipment_Date'' =
           Inr (select k2 (select k1 (to_datetime parse (ffill (series_where sd (str_contains date_pattern sd))))))"
    and "getitem out ''Order_No'' =
           Inr (select k2 (select k1 (ffill (map (str_extract1 order_pattern 0) desc))))"
    and "getitem out ''Order_Date'' =
           Inr (select k2 (select k1 (to_datetime parse (ffill (map (str_extract1 order_pattern 1) desc)))))"
    and "getitem out ''Description'' = Inr (select k2 (select k1 desc'))"
    and "getitem out ''No.'' = Inr (select k2 (ffill (select k1 no)))"
    and "getitem out ''Shipment Date'' = Inl (KeyError ''Shipment Date'')"
  using ok cols unfolding k1_def k2_def desc'_def
  by (auto simp add: clean_data_def Let_def getitem_setitem getitem_setitems2 str_extract_order
      getitem_project getitem_select_rows output_columns_def)

lemma retained_filter:
  assumes "length no = n" "length desc = n"
  shows "filter (\<lambda>i. map Not (str_contains marker_pattern no) ! i \<and>
                      map str_strip1 (map (str_replace1 order_pattern) desc) ! i \<noteq> NaN) [0..<n] =
         filter (retained no desc) [0..<n]"
  using assms by (auto intro!: filter_cong simp add: retained_def str_contains_def)

lemma retained_iff:
  "retained no desc i \<longleftrightarrow> \<not> str_contains1 marker_pattern (no ! i) \<and> is_text (desc ! i)"
  by (cases "desc ! i") (simp_all add: retained_def)

lemma clean_data_rows:
  assumes ok: "clean_data parse df = Inr out" and wf: "well_formed df"
    and cols: "getitem df ''Type'' = Inr ty" "getitem df ''Shipment Date'' = Inr sd"
      "getitem df ''Description'' = Inr desc" "getitem df ''No.'' = Inr no"
  shows "index out = filter (retained no desc) [0..<length (index df)]"
    and "getitem out ''Customer_Name'' =
           Inr (map (nth (ffill (series_where ty (map (\<lambda>c. c \<noteq> Str ''Item'') ty)))) (index out))"
    and "getitem out ''Type'' =
           Inr (map (nth (series_where ty (map (\<lambda>c. c = Str ''Item'') ty))) (index out))"
    and "getitem out ''CID'' =
           Inr (map (nth (ffill (series_where sd (map Not (str_contains date_pattern sd))))) (index out))"
    and "getitem out ''Shipment_Date'' =
           Inr (map (nth (to_datetime parse (ffill (series_where sd (str_contains date_pattern sd)))))
                  (index out))"
    and "getitem out ''Order_No'' =
           Inr (map (nth (ffill (map (str_extract1 order_pattern 0) desc))) (index out))"
    and "getitem out ''Order_Date'' =
           Inr (map (nth (to_datetime parse (ffill (map (str_extract1 order_pattern 1) desc))))
                  (index out))"
    and "getitem out ''Description'' =
           Inr (map (\<lambda>i. str_strip1 (str_replace1 order_pattern (desc ! i))) (index out))"
    and "getitem out ''No.'' =
           Inr (map (nth (ffill (series_where no (map Not (str_contains marker_pattern no)))))
                  (index out))"
proof -
  define n where "n = length (index df)"
  define k1 where "k1 = map Not (str_contains marker_pattern no)"
  define desc' where "desc' = map str_strip1 (map (str_replace1 order_pattern) desc)"
  define g where "g = (\<lambda>c::'a cell. c \<noteq> NaN)"
  have len: "length ty = n" "length sd = n" "length desc = n" "length no = n"
    using wf cols by (simp_all add: n_def well_formed_length)
  have idx: "index df = [0..<n]"
    using wf by (simp add: well_formed_def n_def)
  have k1: "length k1 = n" and d': "length desc' = n"
    using len by (simp_all add: k1_def desc'_def str_contains_def)
  have sel: "select (map g (select k1 desc')) (select k1 xs) =
               map (nth xs) (filter (retained no desc) [0..<n])" if "length xs = n" for xs :: "'b list"
    using double_select [OF k1 d' that, of g] retained_filter [OF len(4) len(3)]
    by (simp add: k1_def desc'_def g_def)
  note out = clean_data_out [OF ok cols, folded k1_def desc'_def g_def]
  show i: "index out = filter (retained no desc) [0..<length (index df)]"
    using out(1) sel [of "[0..<n]"] by (simp add: idx map_nth n_def [symmetric] cong: map_cong)
      (metis (no_types, lifting) filter_is_subset map_idI nth_upt plus_nat.add_0 set_upt subsetD atLeastLessThan_iff)
  show "getitem out ''Customer_Name'' =
           Inr (map (nth (ffill (series_where ty (map (\<lambda>c. c \<noteq> Str ''Item'') ty)))) (index out))"
    using len by (simp add: out(2) sel i n_def)
  show "getitem out ''Type'' =
           Inr (map (nth (series_where ty (map (\<lambda>c. c = Str ''Item'') ty))) (index out))"
    using len by (simp add: out(3) sel i n_def)
  show "getitem out ''CID'' =
           Inr (map (nth (ffill (series_where sd (map Not (str_contains date_pattern sd))))) (index out))"
    using len by (simp add: out(4) sel i n_def str_contains_def)
  show "getitem out ''Shipment_Date'' =
           Inr (map (nth (to_datetime parse (ffill (series_where sd (str_contains date_pattern sd)))))
                  (index out))"
    using len by (simp add: out(5) sel i n_def str_contains_def to_datetime_def)
  show "getitem out ''Order_No'' =
           Inr (map (nth (ffill (map (str_extract1 order_pattern 0) desc))) (index out))"
    using len by (simp add: out(6) sel i n_def)
  show "getitem out ''Order_Date'' =
           Inr (map (nth (to_datetime parse (ffill (map (str_extract1 order_pattern 1) desc))))
                  (index out))"
    using len by (simp add: out(7) sel i n_def to_datetime_def)
  have "getitem out ''Description'' = Inr (map (nth desc') (index out))"
    using d' by (simp add: out(8) sel i n_def)
  moreover have "map (nth desc') (index out) =
      map (\<lambda>i. str_strip1 (str_replace1 order_pattern (desc ! i))) (index out)"
    using len by (auto simp add: i desc'_def n_def)
  ultimately show "getitem out ''Description'' =
           Inr (map (\<lambda>i. str_strip1 (str_replace1 order_pattern (desc ! i))) (index out))"
    by simp
  have "select k1 (ffill (series_where no k1)) = ffill (select k1 no)"
    unfolding ffill_def using k1 len by (intro select_ffill_from) simp
  then have "getitem out ''No.'' =
      Inr (select (map g (select k1 desc')) (select k1 (ffill (series_where no k1))))"
    using out(9) by simp
  then show "getitem out ''No.'' =
           Inr (map (nth (ffill (series_where no (map Not (str_contains marker_pattern no)))))
                  (index out))"
    using sel [of "ffill (series_where no k1)"] len k1 by (simp add: i n_def k1_def)
qed

lemma clean_data_position:
  assumes ok: "clean_data parse df = Inr out" and wf: "well_formed df"
    and cols: "getitem df ''Type'' = Inr ty" "getitem df ''Shipment Date'' = Inr sd"
      "getitem df ''Description'' = Inr desc" "getitem df ''No.'' = Inr no"
    and k: "k < length (index out)"
  shows "index out ! k < length (index df)" and "retained no desc (index out ! k)"
proof -
  have "index out ! k \<in> set (index out)" using k by simp
  then have "index out ! k \<in> set (filter (retained no desc) [0..<length (index df)])"
    using clean_data_rows(1) [OF ok wf cols] by simp
  then show "index out ! k < length (index df)" and "retained no desc (index out ! k)"
    by simp_all
qed

lemma clean_data_row_exists:
  assumes ok: "clean_data parse df = Inr out" and wf: "well_formed df"
    and cols: "getitem df ''Type'' = Inr ty" "getitem df ''Shipment Date'' = Inr sd"
      "getitem df ''Description'' = Inr desc" "getitem df ''No.'' = Inr no"
    and i: "i < length (index df)" "retained no desc i"
  shows "\<exists>k < length (index out). index out ! k = i"
proof -
  have "i \<in> set (index out)"
    using clean_data_rows(1) [OF ok wf cols] i by simp
  then show ?thesis by (simp add: in_set_conv_nth)
qed

lemma clean_data_order_row:
  assumes ok: "clean_data parse df = Inr out" and wf: "well_formed df"
    and desc: "getitem df ''Description'' = Inr desc" and no: "getitem df ''No.'' = Inr no"
    and i: "i < length (index df)" "desc ! i = Str s"
      "\<not> str_contains1 marker_pattern (no ! i)"
    and m: "search (items_of order_pattern) s = Some (pre, gs, rest)"
  shows "\<exists>k < length (index out). index out ! k = i \<and>
           (\<exists>order_no order_date description.
              getitem out ''Order_No'' = Inr order_no \<and> order_no ! k = Str (hd gs) \<and>
              getitem out ''Order_Date'' = Inr order_date \<and>
              order_date ! k =
                to_datetime1 parse (first_valid (map (str_extract1 order_pattern 1) desc))
                  (Str (concat (drop 2 gs))) \<and>
              getitem out ''Description'' = Inr description \<and>
              description ! k = Str (strip (re_sub_empty order_pattern s)))"
proof -
  from ok obtain ty sd desc' no' where
    cols: "getitem df ''Type'' = Inr ty" "getitem df ''Shipment Date'' = Inr sd"
      "getitem df ''Description'' = Inr desc'" "getitem df ''No.'' = Inr no'"
    by (rule clean_data_columns)
  note c = cols(1,2) desc no
  note r = clean_data_rows [OF ok wf c]
  have len: "length desc = length (index df)"
    using wf desc by (rule well_formed_length)
  have "retained no desc i"
    using i by (simp add: retained_def)
  from clean_data_row_exists [OF ok wf c i(1)] this
  obtain k where k: "k < length (index out)" "index out ! k = i" by auto
  let ?on = "map (str_extract1 order_pattern 0) desc"
  let ?od = "map (str_extract1 order_pattern 1) desc"
  have e0: "?on ! i = Str (hd gs)" and e1: "?od ! i = Str (concat (drop 2 gs))"
    using i(1,2) len m order_search_groups(2) [OF m] by simp_all
  have f0: "ffill ?on ! i = Str (hd gs)"
    using ffill_keeps [of i ?on] e0 i(1) len by simp
  have f1: "ffill ?od ! i = Str (concat (drop 2 gs))"
    using ffill_keeps [of i ?od] e1 i(1) len by simp
  have d1: "to_datetime parse (ffill ?od) ! i =
              to_datetime1 parse (first_valid ?od) (Str (concat (drop 2 gs)))"
    using i(1) len f1 by (simp add: to_datetime_nth first_valid_ffill)
  have "map (nth (ffill ?on)) (index out) ! k = Str (hd gs)"
    "map (nth (to_datetime parse (ffill ?od))) (index out) ! k =
       to_datetime1 parse (first_valid ?od) (Str (concat (drop 2 gs)))"
    "map (\<lambda>i. str_strip1 (str_replace1 order_pattern (desc ! i))) (index out) ! k =
       Str (strip (re_sub_empty order_pattern s))"
    using k f0 d1 i(2) by simp_all
  with r(6,7,8) k show ?thesis by blast
qed

lemma clean_data_uniform:
  assumes ok: "clean_data parse df = Inr out" and wf: "well_formed df"
  shows "uniform out"
proof -
  from ok obtain ty sd desc no where
    cols: "getitem df ''Type'' = Inr ty" "getitem df ''Shipment Date'' = Inr sd"
      "getitem df ''Description'' = Inr desc" "getitem df ''No.'' = Inr no"
    by (rule clean_data_columns)
  have len: "length ty = length (index df)" "length sd = length (index df)"
    "length desc = length (index df)" "length no = length (index df)"
    using wf cols by (simp_all add: well_formed_length)
  define k1 where "k1 = map Not (str_contains marker_pattern no)"
  define desc' where "desc' = map str_strip1 (map (str_replace1 order_pattern) desc)"
  define d11 where "d11 =
    setitem (setitem (setitem (setitems (setitem (setitem (setitem (setitem (setitem (setitem
      (setitem df ''Customer_Name'' (series_where ty (map (\<lambda>c. c \<noteq> Str ''Item'') ty)))
      ''Type'' (series_where ty (map (\<lambda>c. c = Str ''Item'') ty)))
      ''Customer_Name'' (ffill (series_where ty (map (\<lambda>c. c \<noteq> Str ''Item'') ty))))
      ''CID'' (series_where sd (map Not (str_contains date_pattern sd))))
      ''Shipment_Date'' (series_where sd (str_contains date_pattern sd)))
      ''CID'' (ffill (series_where sd (map Not (str_contains date_pattern sd)))))
      ''Shipment_Date'' (to_datetime parse (ffill (series_where sd (str_contains date_pattern sd)))))
      [''Order_No'', ''Order_Date'']
      [map (str_extract1 order_pattern 0) desc, map (str_extract1 order_pattern 1) desc])
      ''Order_No'' (ffill (map (str_extract1 order_pattern 0) desc)))
      ''Order_Date'' (to_datetime parse (ffill (map (str_extract1 order_pattern 1) desc))))
      ''Description'' desc'"
  have out: "out = project (select_rows (setitem (select_rows d11 k1) ''No.'' (ffill (select k1 no)))
                      (map (\<lambda>c. c \<noteq> NaN) (select k1 desc'))) output_columns"
    using ok cols
    by (simp add: clean_data_def Let_def getitem_setitem getitem_setitems2 str_extract_order
        d11_def k1_def desc'_def)
  have i11: "index d11 = index df"
    by (simp add: d11_def)
  have u11: "uniform d11"
    unfolding d11_def using len well_formed_uniform [OF wf]
    by (intro uniform_setitem uniform_setitems2)
      (simp_all add: str_contains_def to_datetime_def desc'_def)
  have k1: "length k1 = length (index df)"
    using len by (simp add: k1_def str_contains_def)
  have u12: "uniform (select_rows d11 k1)"
    using u11 k1 by (intro uniform_select_rows) (simp_all add: i11)
  have u13: "uniform (setitem (select_rows d11 k1) ''No.'' (ffill (select k1 no)))"
    using u12 k1 len by (intro uniform_setitem) (simp_all add: i11 length_select)
  have "length (select k1 desc') = length (select k1 (index df))"
    using k1 len by (simp add: length_select desc'_def)
  then show ?thesis
    unfolding out using u13 by (intro uniform_project uniform_select_rows) (simp_all add: i11)
qed

lemma clean_data_distinct:
  assumes ok: "clean_data parse df = Inr out" and wf: "well_formed df"
  shows "distinct (index out)"
proof -
  from ok obtain ty sd desc no where
    cols: "getitem df ''Type'' = Inr ty" "getitem df ''Shipment Date'' = Inr sd"
      "getitem df ''Description'' = Inr desc" "getitem df ''No.'' = Inr no"
    by (rule clean_data_columns)
  from clean_data_rows(1) [OF ok wf cols] show ?thesis by simp
qed

lemma clean_data_customer_name:
  assumes ok: "clean_data parse df = Inr out" and wf: "well_formed df"
  shows "\<exists>cn. getitem out ''Customer_Name'' = Inr cn \<and> length cn = length (index out)"
proof -
  from ok obtain ty sd desc no where
    cols: "getitem df ''Type'' = Inr ty" "getitem df ''Shipment Date'' = Inr sd"
      "getitem df ''Description'' = Inr desc" "getitem df ''No.'' = Inr no"
    by (rule clean_data_columns)
  from clean_data_rows(2) [OF ok wf cols] show ?thesis by simp
qed

subsection \<open>The example tables\<close>

lemma example_orders_cleaned: "clean_data parse_text example_orders = Inr example_cleaned"
  by code_simp

lemma example_orders_well_formed: "well_formed example_orders"
  by (simp add: well_formed_def example_orders_def upt_rec)

lemma example_orders_columns:
  "getitem example_orders ''Type'' =
     Inr [Str ''Acme Deli'', NaN, Str ''Item'', Str ''Global Deli Express'', NaN, Str ''Item'']"
  "getitem example_orders ''Shipment Date'' =
     Inr [Str ''ID123'', Str ''01-02-23'', NaN, Str ''ID9'', Str ''03-04-23'', NaN]"
  "getitem example_orders ''Description'' =
     Inr [NaN, Str ''55555 6/7/2023'', Str ''widget'', NaN,
          Str ''12345 3/4/2024 widget restock'', Str ''gadget'']"
  "getitem example_orders ''No.'' =
     Inr [NaN, Str ''Order No.'', Str ''1001'', NaN, NaN, Str ''1002'']"
  by (simp_all add: getitem_def example_orders_def)

lemma example_bad_ok: "clean_data parse_text example_bad_dates = Inr example_bad_cleaned"
  by code_simp


section \<open>The claims\<close>

text \<open>
  C6. Partition completeness: the Deli table (the rows whose \<^verbatim>\<open>Customer_Name\<close> ends with
  \<^verbatim>\<open>Deli\<close>, case-sensitively) and the FOC table split every cleaned table. Their lengths add
  up to the length of the cleaned table, their rows together are exactly its rows, no row
  label is in both, a row is in the Deli table exactly when its customer name is a text
  that ends with \<^verbatim>\<open>Deli\<close> and in the FOC table otherwise; so a row with a null customer name
  and a row of \<^verbatim>\<open>Global Deli Express\<close> are in the FOC table.
\<close>

theorem partition_complete:
  assumes ok: "clean_data parse df = Inr cleaned" and wf: "well_formed df"
    and deli: "spp_deli_df cleaned = Inr deli" and foc: "spp_foc_df cleaned = Inr foc"
  shows "length (index deli) + length (index foc) = length (index cleaned) \<and>
         mset (rows deli) + mset (rows foc) = mset (rows cleaned) \<and>
         set (index deli) \<inter> set (index foc) = {} \<and>
         (\<exists>cn. getitem cleaned ''Customer_Name'' = Inr cn \<and>
            (\<forall>k < length (index cleaned).
               (index cleaned ! k \<in> set (index deli) \<longleftrightarrow> (\<exists>p. cn ! k = Str (p @ ''Deli''))) \<and>
               (index cleaned ! k \<in> set (index foc) \<longleftrightarrow> \<not> (\<exists>p. cn ! k = Str (p @ ''Deli''))) \<and>
               (cn ! k = NaN \<longrightarrow> index cleaned ! k \<in> set (index foc)) \<and>
               (cn ! k = Str ''Global Deli Express'' \<longrightarrow> index cleaned ! k \<in> set (index foc))))"
proof -
  from clean_data_customer_name [OF ok wf] obtain cn where
    cn: "getitem cleaned ''Customer_Name'' = Inr cn" "length cn = length (index cleaned)"
    by blast
  define m where "m = map (str_endswith1 ''Deli'') cn"
  have m: "length m = length (index cleaned)" "length (map Not m) = length (index cleaned)"
    by (simp_all add: m_def cn(2))
  have d: "deli = select_rows cleaned m" and f: "foc = select_rows cleaned (map Not m)"
    using deli foc cn(1) by (simp_all add: spp_deli_df_def spp_foc_df_def m_def)
  have u: "uniform cleaned" and dist: "distinct (index cleaned)"
    using ok wf by (rule clean_data_uniform, rule clean_data_distinct)
  have len: "length (index deli) + length (index foc) = length (index cleaned)"
    unfolding d f using length_select_split [OF m(1)] by simp
  have "mset (rows deli) + mset (rows foc) = mset (select m (rows cleaned)) + mset (select (map Not m) (rows cleaned))"
    unfolding d f using rows_select_rows [OF u] m by simp
  also have "\<dots> = mset (rows cleaned)"
    by (rule mset_select_split) (simp add: m(1))
  finally have ms: "mset (rows deli) + mset (rows foc) = mset (rows cleaned)" .
  have md: "index cleaned ! k \<in> set (index deli) \<longleftrightarrow> m ! k"
    and mf: "index cleaned ! k \<in> set (index foc) \<longleftrightarrow> \<not> m ! k"
    if "k < length (index cleaned)" for k
    using that select_member [OF dist m(1) that] select_member [OF dist m(2) that]
    by (simp_all add: d f m(1))
  have disj: "set (index deli) \<inter> set (index foc) = {}"
  proof (rule ccontr)
    assume "set (index deli) \<inter> set (index foc) \<noteq> {}"
    then obtain x where x: "x \<in> set (index deli)" "x \<in> set (index foc)" by blast
    have "set (index deli) \<subseteq> set (index cleaned)"
      unfolding d by (auto simp add: select_def dest: set_zip_rightD)
    with x(1) obtain k where "k < length (index cleaned)" "index cleaned ! k = x"
      by (meson in_set_conv_nth subsetD)
    with md mf x show False by blast
  qed
  have mk: "m ! k \<longleftrightarrow> (\<exists>p. cn ! k = Str (p @ ''Deli''))" if "k < length (index cleaned)" for k
  proof (cases "cn ! k")
    case (Str s)
    with that show ?thesis by (simp add: m_def cn(2) endswith_iff)
  qed (use that in \<open>simp_all add: m_def cn(2)\<close>)
  have "\<forall>k < length (index cleaned).
          (index cleaned ! k \<in> set (index deli) \<longleftrightarrow> (\<exists>p. cn ! k = Str (p @ ''Deli''))) \<and>
          (index cleaned ! k \<in> set (index foc) \<longleftrightarrow> \<not> (\<exists>p. cn ! k = Str (p @ ''Deli''))) \<and>
          (cn ! k = NaN \<longrightarrow> index cleaned ! k \<in> set (index foc)) \<and>
          (cn ! k = Str ''Global Deli Express'' \<longrightarrow> index cleaned ! k \<in> set (index foc))"
    using md mf mk by auto
  with cn(1) len ms disj show ?thesis by blast
qed

theorem partition_complete_witness:
  "clean_data parse_text example_orders = Inr example_cleaned \<and> well_formed example_orders \<and>
   spp_deli_df example_cleaned = Inr (select_rows example_cleaned [True, False, False]) \<and>
   spp_foc_df example_cleaned = Inr (select_rows example_cleaned [False, True, True]) \<and>
   length (index (select_rows example_cleaned [True, False, False])) +
     length (index (select_rows example_cleaned [False, True, True])) = length (index example_cleaned) \<and>
   set (index (select_rows example_cleaned [True, False, False])) \<inter>
     set (index (select_rows example_cleaned [False, True, True])) = {}"
proof -
  have d: "spp_deli_df example_cleaned = Inr (select_rows example_cleaned [True, False, False])"
    by code_simp
  have f: "spp_foc_df example_cleaned = Inr (select_rows example_cleaned [False, True, True])"
    by code_simp
  from partition_complete [OF example_orders_cleaned example_orders_well_formed d f]
  show ?thesis
    using example_orders_cleaned example_orders_well_formed d f by blast
qed


text \<open>
  C4. Marker exclusion: a row whose \<^verbatim>\<open>No.\<close> is the text \<^verbatim>\<open>Order No.\<close> is in no cleaned
  table, whatever its other cells hold (the frame is arbitrary), and the marker does not
  reach the forward fill of \<^verbatim>\<open>No.\<close>: the filled column is the forward fill of the \<^verbatim>\<open>No.\<close>
  column with the cells of the marker rows blanked, so no cell of it matches the marker.
\<close>

theorem marker_rows_excluded:
  assumes ok: "clean_data parse df = Inr out" and wf: "well_formed df"
    and no: "getitem df ''No.'' = Inr no"
    and i: "no ! i = Str ''Order No.''"
  shows "i \<notin> set (index out) \<and>
         (\<exists>no'. getitem out ''No.'' = Inr no' \<and>
            no' = map (nth (ffill (series_where no (map Not (str_contains marker_pattern no)))))
                    (index out) \<and>
            (\<forall>c \<in> set no'. \<not> str_contains1 marker_pattern c \<and> c \<noteq> Str ''Order No.''))"
proof -
  from ok obtain ty sd desc no' where
    cols: "getitem df ''Type'' = Inr ty" "getitem df ''Shipment Date'' = Inr sd"
      "getitem df ''Description'' = Inr desc" "getitem df ''No.'' = Inr no'"
    by (rule clean_data_columns)
  with no have [simp]: "no' = no" by simp
  note r = clean_data_rows [OF ok wf cols]
  have m: "str_contains1 marker_pattern (Str ''Order No.'' :: 'a cell)"
    using marker_containment [of "CHR ''.''" "[]" "[]"] by simp
  then have "\<not> retained no desc i"
    by (simp add: retained_def i)
  then have first: "i \<notin> set (index out)"
    using r(1) by simp
  define filled where
    "filled = ffill (series_where no (map Not (str_contains marker_pattern no)))"
  have len: "length no = length (index df)"
    using wf no by (rule well_formed_length)
  have clean: "\<not> str_contains1 marker_pattern c" if "c \<in> set filled" for c
  proof -
    from that set_ffill_from [of NaN "series_where no (map Not (str_contains marker_pattern no))"]
    have "c = NaN \<or> c \<in> set (series_where no (map (\<lambda>x. \<not> str_contains1 marker_pattern x) no))"
      by (auto simp add: filled_def ffill_def str_contains_def comp_def)
    then show ?thesis
      using series_where_keeps [of c no "str_contains1 marker_pattern"] by auto
  qed
  have "\<not> str_contains1 marker_pattern c \<and> c \<noteq> Str ''Order No.''"
    if "c \<in> set (map (nth filled) (index out))" for c
  proof -
    from that obtain j where j: "j \<in> set (index out)" "c = filled ! j" by auto
    then have "j < length filled"
      using r(1) len by (simp add: filled_def str_contains_def)
    then have "c \<in> set filled" using j(2) by simp
    from clean [OF this] m show ?thesis by auto
  qed
  with first r(9) show ?thesis
    unfolding filled_def by simp
qed

theorem marker_rows_excluded_witness:
  "clean_data parse_text example_orders = Inr example_cleaned \<and> well_formed example_orders \<and>
   getitem example_orders ''No.'' =
     Inr [NaN, Str ''Order No.'', Str ''1001'', NaN, NaN, Str ''1002''] \<and>
   1 \<notin> set (index example_cleaned) \<and>
   getitem example_cleaned ''No.'' = Inr [Str ''1001'', Str ''1001'', Str ''1002'']"
proof -
  have h3: "getitem example_orders ''No.'' =
              Inr [NaN, Str ''Order No.'', Str ''1001'', NaN, NaN, Str ''1002'']"
    by code_simp
  have h4: "[NaN, Str ''Order No.'', Str ''1001'', NaN, NaN, Str ''1002''] ! 1 =
              (Str ''Order No.'' :: string cell)"
    by simp
  have h5: "getitem example_cleaned ''No.'' = Inr [Str ''1001'', Str ''1001'', Str ''1002'']"
    by code_simp
  from marker_rows_excluded [OF example_orders_cleaned example_orders_well_formed h3 h4]
  have "1 \<notin> set (index example_cleaned)" by blast
  with example_orders_cleaned example_orders_well_formed h3 h5 show ?thesis by simp
qed


text \<open>
  C5. Description-empty filter. As stated the claim fails: \<^verbatim>\<open>dropna\<close> drops the rows whose
  \<^verbatim>\<open>Description\<close> is null, and the empty text that \<^verbatim>\<open>str.replace\<close> and \<^verbatim>\<open>str.strip\<close> leave
  of a \<^verbatim>\<open>Description\<close> holding only an order header is not null. In the table below row 0 has
  the \<^verbatim>\<open>Description\<close> \<^verbatim>\<open>12345 3/4/2024\<close> and stays in the output with the empty text.
\<close>

theorem empty_description_kept_counterexample:
  "clean_data parse_text example_header_only = Inr example_header_cleaned \<and>
   getitem example_header_only ''Description'' = Inr [Str ''12345 3/4/2024'', Str ''widget''] \<and>
   index example_header_cleaned = [0, 1] \<and>
   getitem example_header_cleaned ''Description'' = Inr [Str [], Str ''widget'']"
  by code_simp


text \<open>
  C5, as the code has it: the rows of the cleaned table are the rows whose \<^verbatim>\<open>No.\<close> does not
  match the marker and whose \<^verbatim>\<open>Description\<close> holds a text, in their order; every row whose
  \<^verbatim>\<open>Description\<close> is null (or no text) is dropped, and no \<^verbatim>\<open>Description\<close> of the output is
  null.
\<close>

theorem null_description_dropped:
  assumes ok: "clean_data parse df = Inr out" and wf: "well_formed df"
    and desc: "getitem df ''Description'' = Inr desc" and no: "getitem df ''No.'' = Inr no"
  shows "index out =
           filter (\<lambda>i. \<not> str_contains1 marker_pattern (no ! i) \<and> is_text (desc ! i))
             [0..<length (index df)] \<and>
         (\<exists>d. getitem out ''Description'' = Inr d \<and> length d = length (index out) \<and>
              NaN \<notin> set d)"
proof -
  from ok obtain ty sd desc' no' where
    cols: "getitem df ''Type'' = Inr ty" "getitem df ''Shipment Date'' = Inr sd"
      "getitem df ''Description'' = Inr desc'" "getitem df ''No.'' = Inr no'"
    by (rule clean_data_columns)
  with desc no have [simp]: "desc' = desc" "no' = no" by simp_all
  note r = clean_data_rows [OF ok wf cols]
  have idx: "index out =
           filter (\<lambda>i. \<not> str_contains1 marker_pattern (no ! i) \<and> is_text (desc ! i))
             [0..<length (index df)]"
    using r(1) by (simp add: retained_iff [abs_def])
  have "str_strip1 (str_replace1 order_pattern (desc ! i)) \<noteq> NaN" if "i \<in> set (index out)" for i
    using that r(1) by (simp add: retained_def)
  then have "NaN \<notin> set (map (\<lambda>i. str_strip1 (str_replace1 order_pattern (desc ! i))) (index out))"
    by (metis (no_types, lifting) imageE list.set_map)
  with idx r(8) show ?thesis by simp
qed

theorem null_description_dropped_witness:
  "clean_data parse_text example_orders = Inr example_cleaned \<and> well_formed example_orders \<and>
   getitem example_orders ''Description'' =
     Inr [NaN, Str ''55555 6/7/2023'', Str ''widget'', NaN,
          Str ''12345 3/4/2024 widget restock'', Str ''gadget''] \<and>
   getitem example_orders ''No.'' =
     Inr [NaN, Str ''Order No.'', Str ''1001'', NaN, NaN, Str ''1002''] \<and>
   index example_cleaned = [2, 4, 5] \<and>
   getitem example_cleaned ''Description'' =
     Inr [Str ''widget'', Str ''widget restock'', Str ''gadget'']"
proof -
  have h3: "getitem example_orders ''Description'' =
     Inr [NaN, Str ''55555 6/7/2023'', Str ''widget'', NaN,
          Str ''12345 3/4/2024 widget restock'', Str ''gadget'']"
    by code_simp
  have h4: "getitem example_orders ''No.'' =
              Inr [NaN, Str ''Order No.'', Str ''1001'', NaN, NaN, Str ''1002'']"
    by code_simp
  have h5: "getitem example_cleaned ''Description'' =
     Inr [Str ''widget'', Str ''widget restock'', Str ''gadget'']"
    by code_simp
  from null_description_dropped [OF example_orders_cleaned example_orders_well_formed h3 h4]
  have "\<exists>d. getitem example_cleaned ''Description'' = Inr d \<and> NaN \<notin> set d"
    by blast
  with example_orders_cleaned example_orders_well_formed h3 h4 h5 show ?thesis
    by (simp add: example_cleaned_def)
qed


text \<open>
  C9. Idempotence. As stated the claim fails: the cleaned table has no \<^verbatim>\<open>Shipment Date\<close>
  column (the projection keeps \<^verbatim>\<open>Shipment_Date\<close> and \<^verbatim>\<open>CID\<close> in its place), so a second run
  on it is no no-op but raises \<^verbatim>\<open>KeyError\<close>.
\<close>

theorem rerun_counterexample:
  "clean_data parse_text example_cleaned = Inl (KeyError ''Shipment Date'')"
  by code_simp


text \<open>
  C9, as the code has it: whenever \<^verbatim>\<open>clean_data\<close> returns a table, running it again on that
  table (with any date parser) raises \<^verbatim>\<open>KeyError: 'Shipment Date'\<close>; the second run returns no
  table, so it reinterprets no column.
\<close>

theorem rerun_raises_key_error:
  assumes ok: "clean_data parse df = Inr out"
  shows "clean_data parse' out = Inl (KeyError ''Shipment Date'')"
proof -
  from ok obtain ty sd desc no where
    cols: "getitem df ''Type'' = Inr ty" "getitem df ''Shipment Date'' = Inr sd"
      "getitem df ''Description'' = Inr desc" "getitem df ''No.'' = Inr no"
    by (rule clean_data_columns)
  note o = clean_data_out [OF ok cols]
  show ?thesis
    by (simp add: clean_data_def Let_def o(3) o(10) getitem_setitem)
qed

theorem rerun_raises_key_error_witness:
  "clean_data parse_text example_orders = Inr example_cleaned \<and>
   clean_data parse_text example_cleaned = Inl (KeyError ''Shipment Date'')"
  using rerun_raises_key_error [OF example_orders_cleaned, of parse_text] example_orders_cleaned
  by simp


text \<open>
  C10. The marker test is a containment test of a regular expression: a row whose \<^verbatim>\<open>No.\<close>
  contains \<^verbatim>\<open>Order No\<close> followed by any character but a newline is removed from the cleaned
  table, also when the cell is not the text \<^verbatim>\<open>Order No.\<close>; \<^verbatim>\<open>XOrder Now\<close> is such a cell.
\<close>

theorem marker_test_is_containment:
  assumes ok: "clean_data parse df = Inr out" and wf: "well_formed df"
    and no: "getitem df ''No.'' = Inr no"
    and i: "no ! i = Str (a @ ''Order No'' @ c # b)" and c: "c \<noteq> CHR 0x0A"
  shows "i \<notin> set (index out)"
proof -
  from ok obtain ty sd desc no' where
    cols: "getitem df ''Type'' = Inr ty" "getitem df ''Shipment Date'' = Inr sd"
      "getitem df ''Description'' = Inr desc" "getitem df ''No.'' = Inr no'"
    by (rule clean_data_columns)
  with no have [simp]: "no' = no" by simp
  have "\<not> retained no desc i"
    using marker_containment [OF c, of a b] by (simp add: retained_def i)
  then show ?thesis
    using clean_data_rows(1) [OF ok wf cols] by simp
qed

theorem marker_test_is_containment_witness:
  "clean_data parse_text example_marker_like = Inr example_marker_cleaned \<and>
   well_formed example_marker_like \<and>
   getitem example_marker_like ''No.'' = Inr [Str ''XOrder Now'', Str ''1001''] \<and>
   ''XOrder Now'' \<noteq> ''Order No.'' \<and>
   0 \<notin> set (index example_marker_cleaned)"
proof -
  have h1: "clean_data parse_text example_marker_like = Inr example_marker_cleaned"
    by code_simp
  have h2: "well_formed example_marker_like"
    by (simp add: well_formed_def example_marker_like_def upt_rec)
  have h3: "getitem example_marker_like ''No.'' = Inr [Str ''XOrder Now'', Str ''1001'']"
    by (simp add: getitem_def example_marker_like_def)
  have h4: "[Str ''XOrder Now'', Str ''1001''] ! 0 =
              (Str (''X'' @ ''Order No'' @ CHR ''w'' # []) :: string cell)"
    by simp
  have h5: "''XOrder Now'' \<noteq> ''Order No.''"
    by simp
  from marker_test_is_containment [OF h1 h2 h3 h4]
  have "0 \<notin> set (index example_marker_cleaned)" by simp
  then show ?thesis
    by (simp only: h1 h2 h3 h5 simp_thms)
qed


text \<open>
  C1. Forward-fill correctness. For every row \<open>k\<close> of the cleaned table, which is row
  \<open>index out ! k\<close> of the input, and for each of the six propagated columns, the cell of the
  output is the value of the nearest row at or before that input row, in the original row
  order, whose cell in the column was not null before the fill, and null if there is no such
  row. The columns before the fill are the ones the code builds: \<^verbatim>\<open>Type\<close> with the \<^verbatim>\<open>Item\<close>
  cells blanked for \<^verbatim>\<open>Customer_Name\<close>, the two halves of \<^verbatim>\<open>Shipment Date\<close> for \<^verbatim>\<open>CID\<close> and
  \<^verbatim>\<open>Shipment_Date\<close>, the two capture groups for \<^verbatim>\<open>Order_No\<close> and \<^verbatim>\<open>Order_Date\<close>. The two date
  columns are converted by \<^verbatim>\<open>pd.to_datetime\<close> after the fill, so their cell is the timestamp
  of that nearest value. \<^verbatim>\<open>No.\<close> is filled after the marker rows have been removed, so for
  \<^verbatim>\<open>No.\<close> the column before the fill is \<^verbatim>\<open>No.\<close> with the cells of the marker rows blanked.
\<close>

theorem forward_fill_nearest_preceding:
  assumes ok: "clean_data parse df = Inr out" and wf: "well_formed df"
    and cols: "getitem df ''Type'' = Inr ty" "getitem df ''Shipment Date'' = Inr sd"
      "getitem df ''Description'' = Inr desc" "getitem df ''No.'' = Inr no"
    and k: "k < length (index out)"
  shows "\<exists>customer_name cid shipment_date order_no order_date no' v w.
           getitem out ''Customer_Name'' = Inr customer_name \<and>
           nearest_preceding (series_where ty (map (\<lambda>c. c \<noteq> Str ''Item'') ty))
             (index out ! k) (customer_name ! k) \<and>
           getitem out ''CID'' = Inr cid \<and>
           nearest_preceding (series_where sd (map Not (str_contains date_pattern sd)))
             (index out ! k) (cid ! k) \<and>
           getitem out ''Shipment_Date'' = Inr shipment_date \<and>
           nearest_preceding (series_where sd (str_contains date_pattern sd)) (index out ! k) v \<and>
           shipment_date ! k =
             to_datetime1 parse (first_valid (series_where sd (str_contains date_pattern sd))) v \<and>
           getitem out ''Order_No'' = Inr order_no \<and>
           nearest_preceding (map (str_extract1 order_pattern 0) desc)
             (index out ! k) (order_no ! k) \<and>
           getitem out ''Order_Date'' = Inr order_date \<and>
           nearest_preceding (map (str_extract1 order_pattern 1) desc) (index out ! k) w \<and>
           order_date ! k =
             to_datetime1 parse (first_valid (map (str_extract1 order_pattern 1) desc)) w \<and>
           getitem out ''No.'' = Inr no' \<and>
           nearest_preceding (series_where no (map Not (str_contains marker_pattern no)))
             (index out ! k) (no' ! k)"
proof -
  define i where "i = index out ! k"
  note r = clean_data_rows [OF ok wf cols]
  have i: "i < length (index df)"
    using clean_data_position(1) [OF ok wf cols k] by (simp add: i_def)
  have len: "length ty = length (index df)" "length sd = length (index df)"
    "length desc = length (index df)" "length no = length (index df)"
    using wf cols by (simp_all add: well_formed_length)
  have near: "nearest_preceding col i (ffill col ! i)" if "length col = length (index df)"
    for col :: "'a cell list"
    using that i by (intro ffill_nearest_preceding) simp
  have dt: "to_datetime parse (ffill col) ! i = to_datetime1 parse (first_valid col) (ffill col ! i)"
    if "length col = length (index df)" for col
    using that i by (simp add: to_datetime_nth first_valid_ffill)
  let ?cn = "series_where ty (map (\<lambda>c. c \<noteq> Str ''Item'') ty)"
  let ?cid = "series_where sd (map Not (str_contains date_pattern sd))"
  let ?sh = "series_where sd (str_contains date_pattern sd)"
  let ?on = "map (str_extract1 order_pattern 0) desc"
  let ?od = "map (str_extract1 order_pattern 1) desc"
  let ?no = "series_where no (map Not (str_contains marker_pattern no))"
  have l: "length ?cn = length (index df)" "length ?cid = length (index df)"
    "length ?sh = length (index df)" "length ?on = length (index df)"
    "length ?od = length (index df)" "length ?no = length (index df)"
    using len by (simp_all add: str_contains_def)
  have 1: "nearest_preceding ?cn i (map (nth (ffill ?cn)) (index out) ! k)"
    using near [OF l(1)] k by (simp add: i_def)
  have 2: "nearest_preceding ?cid i (map (nth (ffill ?cid)) (index out) ! k)"
    using near [OF l(2)] k by (simp add: i_def)
  have 3: "nearest_preceding ?sh i (ffill ?sh ! i)"
    using near [OF l(3)] .
  have c3: "map (nth (to_datetime parse (ffill ?sh))) (index out) ! k =
            to_datetime1 parse (first_valid ?sh) (ffill ?sh ! i)"
    using dt [OF l(3)] k by (simp add: i_def)
  have 4: "nearest_preceding ?on i (map (nth (ffill ?on)) (index out) ! k)"
    using near [OF l(4)] k by (simp add: i_def)
  have 5: "nearest_preceding ?od i (ffill ?od ! i)"
    using near [OF l(5)] .
  have c5: "map (nth (to_datetime parse (ffill ?od))) (index out) ! k =
            to_datetime1 parse (first_valid ?od) (ffill ?od ! i)"
    using dt [OF l(5)] k by (simp add: i_def)
  have 6: "nearest_preceding ?no i (map (nth (ffill ?no)) (index out) ! k)"
    using near [OF l(6)] k by (simp add: i_def)
  from r(2) 1 r(4) 2 r(5) 3 c3 r(6) 4 r(7) 5 c5 r(9) 6 show ?thesis
    unfolding i_def by blast
qed

theorem forward_fill_nearest_preceding_witness:
  "clean_data parse_text example_orders = Inr example_cleaned \<and> well_formed example_orders \<and>
   (1::nat) < length (index example_cleaned) \<and> index example_cleaned ! 1 = 4 \<and>
   getitem example_cleaned ''Customer_Name'' =
     Inr [Str ''Acme Deli'', Str ''Global Deli Express'', Str ''Global Deli Express''] \<and>
   nearest_preceding
     (series_where
        [Str ''Acme Deli'', NaN, Str ''Item'', Str ''Global Deli Express'', NaN,
         Str ''Item'' :: string cell]
        (map (\<lambda>c. c \<noteq> Str ''Item'')
           [Str ''Acme Deli'', NaN, Str ''Item'', Str ''Global Deli Express'', NaN,
            Str ''Item'' :: string cell]))
     4 (Str ''Global Deli Express'') \<and>
   getitem example_cleaned ''No.'' = Inr [Str ''1001'', Str ''1001'', Str ''1002''] \<and>
   nearest_preceding
     (series_where [NaN, Str ''Order No.'', Str ''1001'', NaN, NaN, Str ''1002'' :: string cell]
        (map Not (str_contains marker_pattern
           [NaN, Str ''Order No.'', Str ''1001'', NaN, NaN, Str ''1002'' :: string cell])))
     4 (Str ''1001'')"
proof -
  let ?ty = "[Str ''Acme Deli'', NaN, Str ''Item'', Str ''Global Deli Express'', NaN,
              Str ''Item''] :: string cell list"
  let ?no = "[NaN, Str ''Order No.'', Str ''1001'', NaN, NaN, Str ''1002''] :: string cell list"
  have k: "Suc 0 < length (index example_cleaned)" and i: "index example_cleaned ! Suc 0 = 4"
    by (simp_all add: example_cleaned_def)
  have cn: "getitem example_cleaned ''Customer_Name'' =
     Inr [Str ''Acme Deli'', Str ''Global Deli Express'', Str ''Global Deli Express'']"
    and no: "getitem example_cleaned ''No.'' = Inr [Str ''1001'', Str ''1001'', Str ''1002'']"
    by (simp_all add: getitem_def example_cleaned_def)
  from forward_fill_nearest_preceding
    [OF example_orders_cleaned example_orders_well_formed example_orders_columns k]
  obtain customer_name no' where
    a: "getitem example_cleaned ''Customer_Name'' = Inr customer_name"
      "nearest_preceding (series_where ?ty (map (\<lambda>c. c \<noteq> Str ''Item'') ?ty))
         (index example_cleaned ! Suc 0) (customer_name ! Suc 0)"
      "getitem example_cleaned ''No.'' = Inr no'"
      "nearest_preceding (series_where ?no (map Not (str_contains marker_pattern ?no)))
         (index example_cleaned ! Suc 0) (no' ! Suc 0)"
    by blast
  have "customer_name = [Str ''Acme Deli'', Str ''Global Deli Express'', Str ''Global Deli Express'']"
    "no' = [Str ''1001'', Str ''1001'', Str ''1002'']"
    using a(1,3) cn no by simp_all
  then have "customer_name ! Suc 0 = Str ''Global Deli Express''" "no' ! Suc 0 = Str ''1001''"
    by simp_all
  with a(2,4) have n:
    "nearest_preceding (series_where ?ty (map (\<lambda>c. c \<noteq> Str ''Item'') ?ty)) 4
       (Str ''Global Deli Express'')"
    "nearest_preceding (series_where ?no (map Not (str_contains marker_pattern ?no))) 4
       (Str ''1001'')"
    by (simp_all only: i)
  show ?thesis
    unfolding One_nat_def
    by (intro conjI) (rule example_orders_cleaned example_orders_well_formed k i cn no n)+
qed


text \<open>
  C3. Extraction round-trip. A row whose \<^verbatim>\<open>Description\<close> is
  \<^verbatim>\<open>12345 3/4/2024 widget restock\<close> (and whose \<^verbatim>\<open>No.\<close> is no marker, so that the row is kept) is
  in the cleaned table with \<^verbatim>\<open>Order_No\<close> \<^verbatim>\<open>12345\<close>, with \<^verbatim>\<open>Order_Date\<close> the timestamp that
  \<^verbatim>\<open>pd.to_datetime\<close> gives the text \<^verbatim>\<open>3/4/2024\<close> (null if it gives none), and with the
  \<^verbatim>\<open>Description\<close> \<^verbatim>\<open>widget restock\<close>.
\<close>

theorem extraction_round_trip:
  assumes ok: "clean_data parse df = Inr out" and wf: "well_formed df"
    and desc: "getitem df ''Description'' = Inr desc" and no: "getitem df ''No.'' = Inr no"
    and i: "i < length (index df)" "desc ! i = Str ''12345 3/4/2024 widget restock''"
      "\<not> str_contains1 marker_pattern (no ! i)"
  shows "\<exists>k < length (index out). index out ! k = i \<and>
           (\<exists>order_no order_date description.
              getitem out ''Order_No'' = Inr order_no \<and> order_no ! k = Str ''12345'' \<and>
              getitem out ''Order_Date'' = Inr order_date \<and>
              order_date ! k =
                to_datetime1 parse (first_valid (map (str_extract1 order_pattern 1) desc))
                  (Str ''3/4/2024'') \<and>
              getitem out ''Description'' = Inr description \<and>
              description ! k = Str ''widget restock'')"
  using clean_data_order_row [OF ok wf desc no i order_example_search]
  by (simp add: order_example_sub)

theorem extraction_round_trip_witness:
  "clean_data parse_text example_orders = Inr example_cleaned \<and> well_formed example_orders \<and>
   getitem example_orders ''Description'' =
     Inr [NaN, Str ''55555 6/7/2023'', Str ''widget'', NaN,
          Str ''12345 3/4/2024 widget restock'', Str ''gadget''] \<and>
   getitem example_cleaned ''Order_No'' = Inr [Str ''55555'', Str ''12345'', Str ''12345''] \<and>
   getitem example_cleaned ''Order_Date'' =
     Inr [Date ''6/7/2023'', Date ''3/4/2024'', Date ''3/4/2024''] \<and>
   getitem example_cleaned ''Description'' =
     Inr [Str ''widget'', Str ''widget restock'', Str ''gadget''] \<and>
   (\<exists>k < length (index example_cleaned). index example_cleaned ! k = 4)"
proof -
  have i: "4 < length (index example_orders)"
    "[NaN, Str ''55555 6/7/2023'', Str ''widget'', NaN,
      Str ''12345 3/4/2024 widget restock'', Str ''gadget''] ! 4 =
       (Str ''12345 3/4/2024 widget restock'' :: string cell)"
    "\<not> str_contains1 marker_pattern
       ([NaN, Str ''Order No.'', Str ''1001'', NaN, NaN, Str ''1002''] ! 4 :: string cell)"
    by (simp_all add: example_orders_def)
  have c: "getitem example_cleaned ''Order_No'' = Inr [Str ''55555'', Str ''12345'', Str ''12345'']"
    "getitem example_cleaned ''Order_Date'' =
       Inr [Date ''6/7/2023'', Date ''3/4/2024'', Date ''3/4/2024'']"
    "getitem example_cleaned ''Description'' =
       Inr [Str ''widget'', Str ''widget restock'', Str ''gadget'']"
    by (simp_all add: getitem_def example_cleaned_def)
  from extraction_round_trip [OF example_orders_cleaned example_orders_well_formed
      example_orders_columns(3,4) i]
  have "\<exists>k < length (index example_cleaned). index example_cleaned ! k = 4" by blast
  then show ?thesis
    by (simp only: example_orders_cleaned example_orders_well_formed example_orders_columns c
        simp_thms)
qed


text \<open>
  C7. First-match-only extraction. As stated the claim fails: \<^verbatim>\<open>str.replace\<close> removes every
  match of the order pattern, not only the one \<^verbatim>\<open>str.extract\<close> read. In the table below the
  \<^verbatim>\<open>Description\<close> \<^verbatim>\<open>12345 1/2/2024 first 67890 3/4/2024 second\<close> becomes \<^verbatim>\<open>first  second\<close>; with
  the later header left in place it would be \<^verbatim>\<open>first 67890 3/4/2024 second\<close>.
\<close>

theorem later_header_removed_counterexample:
  "clean_data parse_text example_two_headers = Inr example_two_cleaned \<and>
   getitem example_two_headers ''Description'' =
     Inr [NaN, Str ''12345 1/2/2024 first 67890 3/4/2024 second''] \<and>
   getitem example_two_cleaned ''Description'' = Inr [Str ''first  second''] \<and>
   ''first  second'' \<noteq> ''first 67890 3/4/2024 second''"
  by code_simp


text \<open>
  C7, as the code has it. Let the \<^verbatim>\<open>Description\<close> of a kept row hold the text \<open>s\<close>, let the
  leftmost match of the order pattern in \<open>s\<close> be \<open>gs1\<close>, after the text \<open>pre1\<close>, and let
  the leftmost match in the rest of \<open>s\<close> be \<open>gs2\<close>, after the text \<open>pre2\<close> and before
  \<open>rest2\<close>. Then \<^verbatim>\<open>Order_No\<close> and \<^verbatim>\<open>Order_Date\<close> come from the first match (its digit run, and
  the timestamp of its date), and both matches are removed from the \<^verbatim>\<open>Description\<close>: it is
  \<open>pre1\<close>, \<open>pre2\<close> and what the removal leaves of \<open>rest2\<close>, stripped.
\<close>

theorem every_order_header_removed:
  assumes ok: "clean_data parse df = Inr out" and wf: "well_formed df"
    and desc: "getitem df ''Description'' = Inr desc" and no: "getitem df ''No.'' = Inr no"
    and i: "i < length (index df)" "desc ! i = Str s"
      "\<not> str_contains1 marker_pattern (no ! i)"
    and first: "search (items_of order_pattern) s = Some (pre1, gs1, rest1)"
    and second: "search (items_of order_pattern) rest1 = Some (pre2, gs2, rest2)"
  shows "s = pre1 @ concat gs1 @ pre2 @ concat gs2 @ rest2 \<and>
         list_all2 fits (items_of order_pattern) gs1 \<and>
         list_all2 fits (items_of order_pattern) gs2 \<and>
         (\<exists>k < length (index out). index out ! k = i \<and>
           (\<exists>order_no order_date description.
              getitem out ''Order_No'' = Inr order_no \<and> order_no ! k = Str (hd gs1) \<and>
              getitem out ''Order_Date'' = Inr order_date \<and>
              order_date ! k =
                to_datetime1 parse (first_valid (map (str_extract1 order_pattern 1) desc))
                  (Str (concat (drop 2 gs1))) \<and>
              getitem out ''Description'' = Inr description \<and>
              description ! k =
                Str (strip (pre1 @ pre2 @ re_sub_empty order_pattern rest2))))"
proof -
  from search_sound [OF first] search_sound [OF second]
  have s: "s = pre1 @ concat gs1 @ pre2 @ concat gs2 @ rest2"
    and m: "match_here (items_of order_pattern) (concat gs1 @ rest1) = Some (gs1, rest1)"
      "match_here (items_of order_pattern) (concat gs2 @ rest2) = Some (gs2, rest2)"
    by simp_all
  from m have f: "list_all2 fits (items_of order_pattern) gs1"
    "list_all2 fits (items_of order_pattern) gs2"
    by (auto dest: match_here_sound)
  from clean_data_order_row [OF ok wf desc no i first] s f show ?thesis
    unfolding re_sub_order_twice [OF first second] by blast
qed

theorem every_order_header_removed_witness:
  "clean_data parse_text example_two_headers = Inr example_two_cleaned \<and>
   well_formed example_two_headers \<and>
   getitem example_two_headers ''Description'' =
     Inr [NaN, Str ''12345 1/2/2024 first 67890 3/4/2024 second''] \<and>
   getitem example_two_headers ''No.'' = Inr [NaN, Str ''1001''] \<and>
   search (items_of order_pattern) ''12345 1/2/2024 first 67890 3/4/2024 second'' =
     Some ([], [''12345'', '' '', ''1'', ''/'', ''2'', ''/'', ''2024''],
           '' first 67890 3/4/2024 second'') \<and>
   search (items_of order_pattern) '' first 67890 3/4/2024 second'' =
     Some ('' first '', [''67890'', '' '', ''3'', ''/'', ''4'', ''/'', ''2024''], '' second'') \<and>
   ''12345 1/2/2024 first 67890 3/4/2024 second'' =
     [] @ concat [''12345'', '' '', ''1'', ''/'', ''2'', ''/'', ''2024''] @ '' first '' @
     concat [''67890'', '' '', ''3'', ''/'', ''4'', ''/'', ''2024''] @ '' second'' \<and>
   getitem example_two_cleaned ''Description'' = Inr [Str ''first  second'']"
proof -
  have h1: "clean_data parse_text example_two_headers = Inr example_two_cleaned"
    by code_simp
  have h2: "well_formed example_two_headers"
    by (simp add: well_formed_def example_two_headers_def upt_rec)
  have h3: "getitem example_two_headers ''Description'' =
              Inr [NaN, Str ''12345 1/2/2024 first 67890 3/4/2024 second'']"
    and h4: "getitem example_two_headers ''No.'' = Inr [NaN, Str ''1001'']"
    by (simp_all add: getitem_def example_two_headers_def)
  have i: "1 < length (index example_two_headers)"
    "[NaN, Str ''12345 1/2/2024 first 67890 3/4/2024 second''] ! 1 =
       (Str ''12345 1/2/2024 first 67890 3/4/2024 second'' :: string cell)"
    by (simp_all add: example_two_headers_def)
  have i3: "\<not> str_contains1 marker_pattern ([NaN, Str ''1001''] ! 1 :: string cell)"
    by code_simp
  have s1: "search (items_of order_pattern) ''12345 1/2/2024 first 67890 3/4/2024 second'' =
     Some ([], [''12345'', '' '', ''1'', ''/'', ''2'', ''/'', ''2024''],
           '' first 67890 3/4/2024 second'')"
    by code_simp
  have s2: "search (items_of order_pattern) '' first 67890 3/4/2024 second'' =
     Some ('' first '', [''67890'', '' '', ''3'', ''/'', ''4'', ''/'', ''2024''], '' second'')"
    by code_simp
  have d: "getitem example_two_cleaned ''Description'' = Inr [Str ''first  second'']"
    by (simp add: getitem_def example_two_cleaned_def)
  from every_order_header_removed [OF h1 h2 h3 h4 i i3 s1 s2]
  have "''12345 1/2/2024 first 67890 3/4/2024 second'' =
     [] @ concat [''12345'', '' '', ''1'', ''/'', ''2'', ''/'', ''2024''] @ '' first '' @
     concat [''67890'', '' '', ''3'', ''/'', ''4'', ''/'', ''2024''] @ '' second''"
    by blast
  with h1 h2 h3 h4 s1 s2 d show ?thesis by blast
qed


text \<open>
  C2. Shipment Date classification. As stated the claim fails: the test is
  \<^verbatim>\<open>str.contains(date_pattern)\<close>, a search, so a value that only contains the group of digits
  inside a longer text is a match. In the table below the customer id \<^verbatim>\<open>C-12-34-56\<close> goes to
  \<^verbatim>\<open>Shipment_Date\<close> and leaves \<^verbatim>\<open>CID\<close> null.
\<close>

theorem embedded_date_counterexample:
  "clean_data parse_text example_embedded_date = Inr example_embedded_cleaned \<and>
   getitem example_embedded_date ''Shipment Date'' = Inr [Str ''C-12-34-56'', NaN] \<and>
   getitem example_embedded_cleaned ''CID'' = Inr [NaN] \<and>
   getitem example_embedded_cleaned ''Shipment_Date'' = Inr [Date ''C-12-34-56'']"
  by code_simp


text \<open>
  C2, as the code has it. For every row whose \<^verbatim>\<open>Shipment Date\<close> is not null: if the value is a
  text that contains two digits, a hyphen, two digits, a hyphen and two digits anywhere, it
  goes to the column assigned to \<^verbatim>\<open>Shipment_Date\<close> and the row's cell of the column assigned
  to \<^verbatim>\<open>CID\<close> is null; otherwise (no such group, or no text at all) it goes to \<^verbatim>\<open>CID\<close> and the
  cell for \<^verbatim>\<open>Shipment_Date\<close> is null. In the cleaned table a kept row of the first kind has
  the timestamp of its own value as \<^verbatim>\<open>Shipment_Date\<close>, a kept row of the second kind has its
  own value as \<^verbatim>\<open>CID\<close>.
\<close>

theorem shipment_date_classification:
  assumes ok: "clean_data parse df = Inr out" and wf: "well_formed df"
    and sd: "getitem df ''Shipment Date'' = Inr sd"
    and i: "i < length (index df)" "sd ! i \<noteq> NaN"
  shows "(if has_date_group (sd ! i)
          then series_where sd (str_contains date_pattern sd) ! i = sd ! i \<and>
               series_where sd (map Not (str_contains date_pattern sd)) ! i = NaN
          else series_where sd (map Not (str_contains date_pattern sd)) ! i = sd ! i \<and>
               series_where sd (str_contains date_pattern sd) ! i = NaN) \<and>
         (\<forall>k < length (index out). index out ! k = i \<longrightarrow>
            (\<exists>cid shipment_date.
               getitem out ''CID'' = Inr cid \<and>
               getitem out ''Shipment_Date'' = Inr shipment_date \<and>
               (if has_date_group (sd ! i)
                then shipment_date ! k =
                       to_datetime1 parse
                         (first_valid (series_where sd (str_contains date_pattern sd))) (sd ! i)
                else cid ! k = sd ! i)))"
proof -
  from ok obtain ty sd' desc no where
    cols: "getitem df ''Type'' = Inr ty" "getitem df ''Shipment Date'' = Inr sd'"
      "getitem df ''Description'' = Inr desc" "getitem df ''No.'' = Inr no"
    by (rule clean_data_columns)
  note c = cols(1) sd cols(3,4)
  note r = clean_data_rows [OF ok wf c]
  have len: "length sd = length (index df)"
    using wf sd by (rule well_formed_length)
  let ?sh = "series_where sd (str_contains date_pattern sd)"
  let ?cid = "series_where sd (map Not (str_contains date_pattern sd))"
  have raw: "?sh ! i = (if has_date_group (sd ! i) then sd ! i else NaN)"
    "?cid ! i = (if has_date_group (sd ! i) then NaN else sd ! i)"
    using i(1) len by (simp_all add: series_where_nth str_contains_def contains_date_iff)
  have l: "length ?sh = length (index df)" "length ?cid = length (index df)"
    using len by (simp_all add: str_contains_def)
  have "shipment_date_k = to_datetime1 parse (first_valid ?sh) (sd ! i)"
    if "has_date_group (sd ! i)" "shipment_date_k = to_datetime parse (ffill ?sh) ! i"
    for shipment_date_k
    using that i l raw ffill_keeps [of i ?sh]
    by (simp add: to_datetime_nth first_valid_ffill)
  moreover have "ffill ?cid ! i = sd ! i" if "\<not> has_date_group (sd ! i)"
    using that i l raw ffill_keeps [of i ?cid] by simp
  ultimately have
    "(if has_date_group (sd ! i)
      then map (nth (to_datetime parse (ffill ?sh))) (index out) ! k =
             to_datetime1 parse (first_valid ?sh) (sd ! i)
      else map (nth (ffill ?cid)) (index out) ! k = sd ! i)"
    if "k < length (index out)" "index out ! k = i" for k
    using that by simp
  with r(4,5) have "\<forall>k < length (index out). index out ! k = i \<longrightarrow>
            (\<exists>cid shipment_date.
               getitem out ''CID'' = Inr cid \<and>
               getitem out ''Shipment_Date'' = Inr shipment_date \<and>
               (if has_date_group (sd ! i)
                then shipment_date ! k = to_datetime1 parse (first_valid ?sh) (sd ! i)
                else cid ! k = sd ! i))"
    by blast
  with raw show ?thesis by simp
qed

theorem shipment_date_classification_witness:
  "clean_data parse_text example_orders = Inr example_cleaned \<and> well_formed example_orders \<and>
   getitem example_orders ''Shipment Date'' =
     Inr [Str ''ID123'', Str ''01-02-23'', NaN, Str ''ID9'', Str ''03-04-23'', NaN] \<and>
   has_date_group (Str ''03-04-23'' :: string cell) \<and>
   series_where [Str ''ID123'', Str ''01-02-23'', NaN, Str ''ID9'', Str ''03-04-23'', NaN]
     (str_contains date_pattern
        [Str ''ID123'', Str ''01-02-23'', NaN, Str ''ID9'', Str ''03-04-23'',
         NaN :: string cell]) ! 4 = (Str ''03-04-23'' :: string cell) \<and>
   series_where [Str ''ID123'', Str ''01-02-23'', NaN, Str ''ID9'', Str ''03-04-23'', NaN]
     (map Not (str_contains date_pattern
        [Str ''ID123'', Str ''01-02-23'', NaN, Str ''ID9'', Str ''03-04-23'',
         NaN :: string cell])) ! 4 = (NaN :: string cell)"
proof -
  let ?sd = "[Str ''ID123'', Str ''01-02-23'', NaN, Str ''ID9'', Str ''03-04-23'', NaN]
             :: string cell list"
  have i: "4 < length (index example_orders)" "?sd ! 4 \<noteq> NaN"
    by (simp_all add: example_orders_def)
  have e: "?sd ! 4 = Str ''03-04-23''" by simp
  have h: "has_date_group (Str ''03-04-23'' :: string cell)"
    unfolding contains_date_iff [symmetric] by code_simp
  from shipment_date_classification
    [OF example_orders_cleaned example_orders_well_formed example_orders_columns(2) i]
  have "if has_date_group (?sd ! 4)
        then series_where ?sd (str_contains date_pattern ?sd) ! 4 = ?sd ! 4 \<and>
             series_where ?sd (map Not (str_contains date_pattern ?sd)) ! 4 = NaN
        else series_where ?sd (map Not (str_contains date_pattern ?sd)) ! 4 = ?sd ! 4 \<and>
             series_where ?sd (str_contains date_pattern ?sd) ! 4 = NaN"
    by (rule conjunct1)
  then have "series_where ?sd (str_contains date_pattern ?sd) ! 4 = Str ''03-04-23''"
    "series_where ?sd (map Not (str_contains date_pattern ?sd)) ! 4 = NaN"
    unfolding e using h by simp_all
  then show ?thesis
    by (simp only: example_orders_cleaned example_orders_well_formed example_orders_columns h
        simp_thms)
qed


text \<open>
  C8. Malformed-date recovery. A date that \<^verbatim>\<open>pd.to_datetime\<close> cannot parse costs no row and
  fails nothing: with any other parser \<^verbatim>\<open>clean_data\<close> returns a table with the same rows,
  and a row is kept exactly when it passes the two row filters, which read no date. In a
  kept row whose \<^verbatim>\<open>Shipment Date\<close> matches the date pattern but cannot be parsed,
  \<^verbatim>\<open>Shipment_Date\<close> is null; in a kept row whose \<^verbatim>\<open>Description\<close> has an order date that cannot
  be parsed, \<^verbatim>\<open>Order_Date\<close> is null.
\<close>

theorem malformed_date_recovered:
  assumes ok: "clean_data parse df = Inr out" and wf: "well_formed df"
    and sd: "getitem df ''Shipment Date'' = Inr sd"
    and desc: "getitem df ''Description'' = Inr desc" and no: "getitem df ''No.'' = Inr no"
    and i: "i < length (index df)"
  shows "(\<forall>parse'. \<exists>out'. clean_data parse' df = Inr out' \<and> index out' = index out) \<and>
         (i \<in> set (index out) \<longleftrightarrow> retained no desc i) \<and>
         (\<forall>k < length (index out). index out ! k = i \<longrightarrow>
            (\<exists>shipment_date order_date.
               getitem out ''Shipment_Date'' = Inr shipment_date \<and>
               getitem out ''Order_Date'' = Inr order_date \<and>
               (str_contains1 date_pattern (sd ! i) \<and>
                parse (first_valid (series_where sd (str_contains date_pattern sd))) (sd ! i) = None
                  \<longrightarrow> shipment_date ! k = NaN) \<and>
               (str_extract1 order_pattern 1 (desc ! i) \<noteq> NaN \<and>
                parse (first_valid (map (str_extract1 order_pattern 1) desc))
                  (str_extract1 order_pattern 1 (desc ! i)) = None
                  \<longrightarrow> order_date ! k = NaN)))"
proof -
  from ok obtain ty sd' desc' no' where
    cols: "getitem df ''Type'' = Inr ty" "getitem df ''Shipment Date'' = Inr sd'"
      "getitem df ''Description'' = Inr desc'" "getitem df ''No.'' = Inr no'"
    by (rule clean_data_columns)
  note c = cols(1) sd desc no
  note r = clean_data_rows [OF ok wf c]
  have len: "length sd = length (index df)" "length desc = length (index df)"
    using wf sd desc by (simp_all add: well_formed_length)
  have same: "\<exists>out'. clean_data parse' df = Inr out' \<and> index out' = index out" for parse'
  proof -
    from clean_data_success [OF c, of parse'] obtain out' where
      o: "clean_data parse' df = Inr out'" by blast
    from clean_data_rows(1) [OF o wf c] r(1) have "index out' = index out" by simp
    with o show ?thesis by blast
  qed
  have kept: "i \<in> set (index out) \<longleftrightarrow> retained no desc i"
    using r(1) i by simp
  let ?sh = "series_where sd (str_contains date_pattern sd)"
  let ?od = "map (str_extract1 order_pattern 1) desc"
  have l: "length ?sh = length (index df)" "length ?od = length (index df)"
    using len by (simp_all add: str_contains_def)
  have a: "to_datetime parse (ffill ?sh) ! i = NaN"
    if "str_contains1 date_pattern (sd ! i)" "parse (first_valid ?sh) (sd ! i) = None"
  proof -
    have "?sh ! i = sd ! i"
      using that(1) i len by (simp add: series_where_nth str_contains_def)
    moreover from that(1) have "sd ! i \<noteq> NaN" by auto
    ultimately have "ffill ?sh ! i = sd ! i"
      using ffill_keeps [of i ?sh] i len by (simp add: str_contains_def)
    then show ?thesis
      using that(2) i l by (simp add: to_datetime_nth first_valid_ffill to_datetime1_def)
  qed
  have b: "to_datetime parse (ffill ?od) ! i = NaN"
    if "str_extract1 order_pattern 1 (desc ! i) \<noteq> NaN"
      "parse (first_valid ?od) (str_extract1 order_pattern 1 (desc ! i)) = None"
  proof -
    have "?od ! i = str_extract1 order_pattern 1 (desc ! i)"
      using i len by simp
    with that(1) have "ffill ?od ! i = str_extract1 order_pattern 1 (desc ! i)"
      using ffill_keeps [of i ?od] i l by simp
    then show ?thesis
      using that(2) i l by (simp add: to_datetime_nth first_valid_ffill to_datetime1_def)
  qed
  have "(str_contains1 date_pattern (sd ! i) \<and> parse (first_valid ?sh) (sd ! i) = None
           \<longrightarrow> map (nth (to_datetime parse (ffill ?sh))) (index out) ! k = NaN) \<and>
        (str_extract1 order_pattern 1 (desc ! i) \<noteq> NaN \<and>
         parse (first_valid ?od) (str_extract1 order_pattern 1 (desc ! i)) = None
           \<longrightarrow> map (nth (to_datetime parse (ffill ?od))) (index out) ! k = NaN)"
    if "k < length (index out)" "index out ! k = i" for k
    using that a b by simp
  with r(5,7) have "\<forall>k < length (index out). index out ! k = i \<longrightarrow>
            (\<exists>shipment_date order_date.
               getitem out ''Shipment_Date'' = Inr shipment_date \<and>
               getitem out ''Order_Date'' = Inr order_date \<and>
               (str_contains1 date_pattern (sd ! i) \<and>
                parse (first_valid ?sh) (sd ! i) = None \<longrightarrow> shipment_date ! k = NaN) \<and>
               (str_extract1 order_pattern 1 (desc ! i) \<noteq> NaN \<and>
                parse (first_valid ?od) (str_extract1 order_pattern 1 (desc ! i)) = None
                  \<longrightarrow> order_date ! k = NaN))"
    by blast
  with same kept show ?thesis by blast
qed

theorem malformed_date_recovered_witness:
  "clean_data parse_text example_bad_dates = Inr example_bad_cleaned \<and>
   well_formed example_bad_dates \<and>
   getitem example_bad_dates ''Shipment Date'' = Inr [Str ''ID1'', Str ''bad-00-00-00'', NaN] \<and>
   getitem example_bad_dates ''Description'' =
     Inr [NaN, Str ''12345 99/99/9999 bolt'', Str ''widget''] \<and>
   getitem example_bad_dates ''No.'' = Inr [NaN, NaN, Str ''1001''] \<and>
   (1::nat) < length (index example_bad_dates) \<and>
   str_contains1 date_pattern (Str ''bad-00-00-00'' :: string cell) \<and>
   parse_text (Str ''bad-00-00-00'') (Str ''bad-00-00-00'') = None \<and>
   str_extract1 order_pattern 1 (Str ''12345 99/99/9999 bolt'' :: string cell) =
     Str ''99/99/9999'' \<and>
   parse_text (Str ''99/99/9999'') (Str ''99/99/9999'') = None \<and>
   index example_bad_cleaned = [1, 2] \<and>
   getitem example_bad_cleaned ''Shipment_Date'' = Inr [NaN, NaN] \<and>
   getitem example_bad_cleaned ''Order_Date'' = Inr [NaN, NaN] \<and>
   (\<exists>out'. clean_data (\<lambda>h c. None) example_bad_dates = Inr out' \<and>
      index out' = index example_bad_cleaned)"
proof -
  have h2: "well_formed example_bad_dates"
    by (simp add: well_formed_def example_bad_dates_def upt_rec)
  have c: "getitem example_bad_dates ''Shipment Date'' =
             Inr [Str ''ID1'', Str ''bad-00-00-00'', NaN]"
    "getitem example_bad_dates ''Description'' =
       Inr [NaN, Str ''12345 99/99/9999 bolt'', Str ''widget'']"
    "getitem example_bad_dates ''No.'' = Inr [NaN, NaN, Str ''1001'']"
    by (simp_all add: getitem_def example_bad_dates_def)
  have i: "(1::nat) < length (index example_bad_dates)"
    by (simp add: example_bad_dates_def)
  have e: "str_contains1 date_pattern (Str ''bad-00-00-00'' :: string cell)"
    "parse_text (Str ''bad-00-00-00'') (Str ''bad-00-00-00'') = None"
    "str_extract1 order_pattern 1 (Str ''12345 99/99/9999 bolt'' :: string cell) =
       Str ''99/99/9999''"
    "parse_text (Str ''99/99/9999'') (Str ''99/99/9999'') = None"
    by code_simp+
  have o: "index example_bad_cleaned = [1, 2]"
    "getitem example_bad_cleaned ''Shipment_Date'' = Inr [NaN, NaN]"
    "getitem example_bad_cleaned ''Order_Date'' = Inr [NaN, NaN]"
    by (simp_all add: getitem_def example_bad_cleaned_def)
  from malformed_date_recovered [OF example_bad_ok h2 c i]
  have "\<forall>parse'. \<exists>out'. clean_data parse' example_bad_dates = Inr out' \<and>
          index out' = index example_bad_cleaned"
    by (rule conjunct1)
  then have "\<exists>out'. clean_data (\<lambda>h c. None) example_bad_dates = Inr out' \<and>
      index out' = index example_bad_cleaned"
    by (rule spec)
  then show ?thesis
    by (simp only: example_bad_ok h2 c i e o simp_thms)
qed

end
